theory Spec2Isabelle
  imports Complex_Main "HOL-Library.Multiset"
begin

section \<open>Python primitives used by the generators\<close>

text \<open>
  The two generator scripts (\<open>test_data/generate_large_dataset.py\<close> and
  \<open>fresh/test_data/generate_large_test_data.py\<close>) are embedded as state-passing
  functions. Python floats are modelled as exact rationals, Python ints as \<open>int\<close>,
  Python strings as \<open>string\<close>.
\<close>

subsection \<open>\<open>str\<close> and format specifications\<close>

definition digit_char :: "nat \<Rightarrow> char" where
  "digit_char d = ''0123456789'' ! d"

fun str_nat :: "nat \<Rightarrow> string" where
  "str_nat n = (if n < 10 then [digit_char n] else str_nat (n div 10) @ [digit_char (n mod 10)])"

declare str_nat.simps [simp del]

text \<open>\<open>str(i)\<close> for a Python int.\<close>

definition str_int :: "int \<Rightarrow> string" where
  "str_int i = (if i < 0 then CHR ''-'' # str_nat (nat (- i)) else str_nat (nat i))"

text \<open>\<open>f"{i:0wd}"\<close>: zero padding up to a minimal width (the sign goes first).\<close>

definition zpad :: "nat \<Rightarrow> int \<Rightarrow> string" where
  "zpad w i =
     (if i < 0 then CHR ''-'' # replicate (w - 1 - length (str_nat (nat (- i)))) CHR ''0'' @ str_nat (nat (- i))
      else replicate (w - length (str_nat (nat i))) CHR ''0'' @ str_nat (nat i))"

text \<open>\<open>int(x)\<close> on a float truncates towards zero.\<close>

definition py_trunc :: "rat \<Rightarrow> int" where
  "py_trunc q = (if 0 \<le> q then \<lfloor>q\<rfloor> else \<lceil>q\<rceil>)"

text \<open>Rounding to the nearest integer, ties to even, as \<open>round\<close> and \<open>format\<close> do.\<close>

definition round_half_even :: "rat \<Rightarrow> int" where
  "round_half_even q =
     (let f = \<lfloor>q\<rfloor>; d = q - of_int f
      in if d < 1 / 2 then f else if 1 / 2 < d then f + 1 else if even f then f else f + 1)"

text \<open>\<open>round(x, 1)\<close>.\<close>

definition py_round1 :: "rat \<Rightarrow> rat" where
  "py_round1 q = of_int (round_half_even (q * 10)) / 10"

text \<open>
  \<open>show_fixed d n\<close> prints the integer \<open>n\<close>, read as a multiple of \<open>10\<^sup>-\<^sup>d\<close>, with
  \<open>d\<close> digits after the point; \<open>fmt_fixed d q\<close> is \<open>f"{q:.df}"\<close>.
\<close>

definition show_fixed :: "nat \<Rightarrow> int \<Rightarrow> string" where
  "show_fixed d n = str_int (n div 10 ^ d) @ ''.'' @ zpad d (n mod 10 ^ d)"

definition fmt_fixed :: "nat \<Rightarrow> rat \<Rightarrow> string" where
  "fmt_fixed d q =
     (if q < 0 then CHR ''-'' # show_fixed d (round_half_even (- q * 10 ^ d))
      else show_fixed d (round_half_even (q * 10 ^ d)))"

subsection \<open>\<open>datetime\<close>: proleptic Gregorian ordinals\<close>

text \<open>
  A date is its ordinal (\<open>date.toordinal()\<close>, day 1 is 0001-01-01); adding a
  \<open>timedelta(days=k)\<close> adds \<open>k\<close>.
\<close>

definition is_leap :: "int \<Rightarrow> bool" where
  "is_leap y = (y mod 4 = 0 \<and> (y mod 100 \<noteq> 0 \<or> y mod 400 = 0))"

definition DAYS_IN_MONTH :: "int list" where
  "DAYS_IN_MONTH = [-1, 31, 28, 31, 30, 31, 30, 31, 31, 30, 31, 30, 31]"

definition DAYS_BEFORE_MONTH :: "int list" where
  "DAYS_BEFORE_MONTH = [-1, 0, 31, 59, 90, 120, 151, 181, 212, 243, 273, 304, 334]"

definition days_before_year :: "int \<Rightarrow> int" where
  "days_before_year year = (let y = year - 1 in y * 365 + y div 4 - y div 100 + y div 400)"

definition days_before_month :: "int \<Rightarrow> int \<Rightarrow> int" where
  "days_before_month year month =
     DAYS_BEFORE_MONTH ! nat month + (if 2 < month \<and> is_leap year then 1 else 0)"

definition ymd2ord :: "int \<Rightarrow> int \<Rightarrow> int \<Rightarrow> int" where
  "ymd2ord year month day = days_before_year year + days_before_month year month + day"

definition ord2ymd :: "int \<Rightarrow> int \<times> int \<times> int" where
  "ord2ymd n0 =
     (let n = n0 - 1;
          n400 = n div 146097; n = n mod 146097;
          year = n400 * 400 + 1;
          n100 = n div 36524; n = n mod 36524;
          n4 = n div 1461; n = n mod 1461;
          n1 = n div 365; n = n mod 365;
          year = year + n100 * 100 + n4 * 4 + n1
      in if n1 = 4 \<or> n100 = 4 then (year - 1, 12, 31)
         else
           let leapyear = (n1 = 3 \<and> (n4 \<noteq> 24 \<or> n100 = 3));
               month = (n + 50) div 32;
               preceding = DAYS_BEFORE_MONTH ! nat month + (if 2 < month \<and> leapyear then 1 else 0)
           in if n < preceding
              then
                let month = month - 1;
                    preceding = preceding - (DAYS_IN_MONTH ! nat month + (if month = 2 \<and> leapyear then 1 else 0))
                in (year, month, n - preceding + 1)
              else (year, month, n - preceding + 1))"

text \<open>\<open>d.strftime('%Y-%m-%d')\<close>.\<close>

definition strftime_ymd :: "int \<Rightarrow> string" where
  "strftime_ymd ord = (case ord2ymd ord of (y, m, d) \<Rightarrow> zpad 4 y @ ''-'' @ zpad 2 m @ ''-'' @ zpad 2 d)"

subsection \<open>The \<open>random\<close> module\<close>

text \<open>
  The pseudo-random generator is a parameter: a state type \<open>'s\<close> with the two
  primitives every other function of the module is built from, \<open>random()\<close> and
  \<open>_randbelow(n)\<close>. Each returns its value and the next state.
\<close>

record 's rng_ops =
  rng_random :: "'s \<Rightarrow> rat \<times> 's"
  rng_randbelow :: "nat \<Rightarrow> 's \<Rightarrow> nat \<times> 's"

text \<open>The contract of the library: \<open>random()\<close> is in \<open>[0, 1)\<close>, \<open>_randbelow(n)\<close> in \<open>[0, n)\<close>.\<close>

definition rng_ok :: "'s rng_ops \<Rightarrow> bool" where
  "rng_ok R = ((\<forall>s. 0 \<le> fst (rng_random R s) \<and> fst (rng_random R s) < 1) \<and>
               (\<forall>n s. 0 < n \<longrightarrow> fst (rng_randbelow R n s) < n))"

text \<open>\<open>random.uniform(a, b)\<close> is \<open>a + (b - a) * random()\<close>.\<close>

definition uniform :: "'s rng_ops \<Rightarrow> rat \<Rightarrow> rat \<Rightarrow> 's \<Rightarrow> rat \<times> 's" where
  "uniform R a b s = (case rng_random R s of (u, s') \<Rightarrow> (a + (b - a) * u, s'))"

text \<open>\<open>random.randint(a, b)\<close> is \<open>a + _randbelow(b - a + 1)\<close>.\<close>

definition randint :: "'s rng_ops \<Rightarrow> int \<Rightarrow> int \<Rightarrow> 's \<Rightarrow> int \<times> 's" where
  "randint R a b s = (case rng_randbelow R (nat (b - a + 1)) s of (k, s') \<Rightarrow> (a + int k, s'))"

text \<open>
  \<open>random.choice(seq)\<close> is \<open>seq[_randbelow(len(seq))]\<close>. Every sequence the
  generators pass is non-empty, and the index is in range under \<open>rng_ok\<close>.
\<close>

definition choice :: "'s rng_ops \<Rightarrow> 'a list \<Rightarrow> 's \<Rightarrow> 'a \<times> 's" where
  "choice R xs s = (case rng_randbelow R (length xs) s of (k, s') \<Rightarrow> (xs ! k, s'))"

text \<open>
  \<open>random.shuffle(x)\<close>: for \<open>i\<close> from \<open>len(x) - 1\<close> down to 1, swap \<open>x[i]\<close> with
  \<open>x[_randbelow(i + 1)]\<close>.
\<close>

fun shuffle_loop :: "'s rng_ops \<Rightarrow> nat list \<Rightarrow> 'a list \<Rightarrow> 's \<Rightarrow> 'a list \<times> 's" where
  "shuffle_loop R [] x s = (x, s)"
| "shuffle_loop R (i # is) x s =
     (case rng_randbelow R (i + 1) s of (j, s') \<Rightarrow> shuffle_loop R is (x[i := x ! j, j := x ! i]) s')"

definition shuffle :: "'s rng_ops \<Rightarrow> 'a list \<Rightarrow> 's \<Rightarrow> 'a list \<times> 's" where
  "shuffle R x s = shuffle_loop R (rev [1..<length x]) x s"

text \<open>
  A concrete generator for running the model: the state is a tape of raw numbers, each
  read once. \<open>_randbelow(n)\<close> reduces the number modulo \<open>n\<close>, \<open>random()\<close> reads
  it in thousandths. An exhausted tape yields 0.
\<close>

fun tape_random :: "nat list \<Rightarrow> rat \<times> nat list" where
  "tape_random [] = (0, [])"
| "tape_random (k # ks) = (of_nat (k mod 1000) / 1000, ks)"

fun tape_randbelow :: "nat \<Rightarrow> nat list \<Rightarrow> nat \<times> nat list" where
  "tape_randbelow n [] = (0, [])"
| "tape_randbelow n (k # ks) = (k mod n, ks)"

definition tape_rng :: "(nat list) rng_ops" where
  "tape_rng = \<lparr>rng_random = tape_random, rng_randbelow = tape_randbelow\<rparr>"

subsection \<open>The \<open>csv\<close> writer\<close>

text \<open>
  The default dialect: fields joined by commas, a field quoted when it holds a comma, a
  quote or a line break (quotes doubled), a row of one empty field written as \<open>""\<close>,
  lines ended by CR LF.
\<close>

definition csv_field :: "string \<Rightarrow> string" where
  "csv_field f =
     (if \<exists>c \<in> set f. c \<in> {CHR '','', CHR 0x22, CHR 0x0D, CHR 0x0A}
      then [CHR 0x22] @ concat (map (\<lambda>c. if c = CHR 0x22 then [c, c] else [c]) f) @ [CHR 0x22]
      else f)"

fun join_comma :: "string list \<Rightarrow> string" where
  "join_comma [] = []"
| "join_comma [f] = f"
| "join_comma (f # fs) = f @ '','' @ join_comma fs"

definition csv_line :: "string list \<Rightarrow> string" where
  "csv_line row =
     (if row = [[]] then [CHR 0x22, CHR 0x22, CHR 0x0D, CHR 0x0A]
      else join_comma (map csv_field row) @ [CHR 0x0D, CHR 0x0A])"

section \<open>\<open>test_data/generate_large_dataset.py\<close>: the duplicate-dataset generator\<close>

definition NUM_GROUPS :: nat where
  "NUM_GROUPS = 500"

definition DUPLICATE_RATIO :: rat where
  "DUPLICATE_RATIO = 3 / 10"

definition DEPARTMENTS :: "string list" where
  "DEPARTMENTS = [''Engineering'', ''Marketing'', ''Sales'', ''HR'', ''Finance'', ''Operations'',
     ''Legal'', ''IT'']"

definition NAMES :: "string list" where
  "NAMES = [''John'', ''Jane'', ''Bob'', ''Alice'', ''Charlie'', ''David'', ''Emma'', ''Frank'',
     ''Grace'', ''Henry'', ''Ivy'', ''Jack'', ''Kate'', ''Liam'', ''Mia'', ''Noah'', ''Olivia'',
     ''Paul'', ''Quinn'', ''Ruby'', ''Sam'', ''Tina'', ''Uma'', ''Victor'', ''Wendy'', ''Xander'',
     ''Yara'', ''Zoe'', ''Alex'', ''Blake'', ''Casey'', ''Drew'', ''Eden'', ''Finley'', ''Gray'',
     ''Harper'', ''Indigo'', ''Jordan'', ''Kai'', ''Luna'']"

text \<open>
  A record is a \<open>Dict[str, Any]\<close>. The fields that the script assigns values of more
  than one Python type hold a \<open>pyval\<close>: the nullable fields (a number, a string or
  \<open>None\<close>) and the record identifier (the integer counter on a base row, a formatted
  string on a duplicate).
\<close>

datatype pyval = PNone | PInt int | PFloat rat | PStr string

text \<open>
  \<open>str(v)\<close>, as an f-string formats a value. The only floats of the script are ratings
  rounded to one decimal, which print with one digit after the point.
\<close>

fun py_str :: "pyval \<Rightarrow> string" where
  "py_str PNone = ''None''"
| "py_str (PInt i) = str_int i"
| "py_str (PFloat q) = fmt_fixed 1 q"
| "py_str (PStr s) = s"

record rec =
  group_id :: string
  name :: string
  age :: pyval
  salary :: pyval
  is_active :: bool
  created_date :: string
  department :: pyval
  rating :: pyval
  record_id :: pyval

text \<open>
  \<open>generate_record\<close>. \<open>now\<close> is the calendar day (as an ordinal) that
  \<open>datetime.datetime.now()\<close> returns; the time of day does not reach the
  \<open>%Y-%m-%d\<close> string.
\<close>

definition generate_record :: "'s rng_ops \<Rightarrow> int \<Rightarrow> string \<Rightarrow> int \<Rightarrow> 's \<Rightarrow> rec \<times> 's" where
  "generate_record R now gid rid s0 =
     (let (name, s1) = choice R NAMES s0;
          (age, s2) = randint R 22 65 s1;
          (salary, s3) = randint R 30000 150000 s2;
          (is_active, s4) = choice R [True, False] s3;
          (department, s5) = choice R DEPARTMENTS s4;
          (x, s6) = uniform R 1 5 s5;
          rating = py_round1 x;
          (days_ago, s7) = randint R 0 730 s6;
          created_date_str = strftime_ymd (now - days_ago);
          (u1, s8) = rng_random R s7;
          age = (if u1 < 1 / 10 then PNone else PInt age);
          (u2, s9) = rng_random R s8;
          salary = (if u2 < 5 / 100 then PNone else PInt salary);
          (u3, s10) = rng_random R s9;
          rating = (if u3 < 8 / 100 then PNone else PFloat rating);
          (u4, s11) = rng_random R s10;
          department = (if u4 < 3 / 100 then PNone else PStr department)
      in (\<lparr>group_id = gid, name = name, age = age, salary = salary, is_active = is_active,
           created_date = created_date_str, department = department, rating = rating,
           record_id = PInt rid\<rparr>, s11))"

definition create_duplicate_records :: "rec \<Rightarrow> nat \<Rightarrow> rec list" where
  "create_duplicate_records base_record num_duplicates =
     map (\<lambda>i. base_record\<lparr>record_id :=
                 PStr (py_str (record_id base_record) @ ''_dup_'' @ str_int (int i + 1))\<rparr>)
       [0..<num_duplicates]"

text \<open>The inner loop of \<open>generate_large_dataset\<close>: \<open>group_size\<close> base rows.\<close>

fun base_records :: "'s rng_ops \<Rightarrow> int \<Rightarrow> string \<Rightarrow> nat \<Rightarrow> rec list \<Rightarrow> int \<Rightarrow> 's \<Rightarrow> rec list \<times> int \<times> 's" where
  "base_records R now gid 0 group_records rid s = (group_records, rid, s)"
| "base_records R now gid (Suc k) group_records rid s =
     (case generate_record R now gid rid s of
        (base_record, s') \<Rightarrow> base_records R now gid k (group_records @ [base_record]) (rid + 1) s')"

text \<open>The body of the loop over groups.\<close>

definition generate_group :: "'s rng_ops \<Rightarrow> int \<Rightarrow> nat \<Rightarrow> int \<Rightarrow> 's \<Rightarrow> rec list \<times> int \<times> 's" where
  "generate_group R now group_num rid s0 =
     (let gid = ''GROUP_'' @ zpad 3 (int group_num);
          (group_size, s1) = randint R 1 50 s0;
          (group_records, rid1, s2) = base_records R now gid (nat group_size) [] rid s1;
          (u, s3) = rng_random R s2
      in if u < DUPLICATE_RATIO
         then
           let (base_record, s4) = choice R group_records s3;
               (num_duplicates, s5) = randint R 1 5 s4;
               duplicates = create_duplicate_records base_record (nat num_duplicates)
           in (group_records @ duplicates, rid1 + num_duplicates, s5)
         else (group_records, rid1, s3))"

fun generate_groups :: "'s rng_ops \<Rightarrow> int \<Rightarrow> nat list \<Rightarrow> rec list \<Rightarrow> int \<Rightarrow> 's \<Rightarrow> rec list \<times> int \<times> 's" where
  "generate_groups R now [] records rid s = (records, rid, s)"
| "generate_groups R now (group_num # gs) records rid s =
     (case generate_group R now group_num rid s of
        (group_records, rid', s') \<Rightarrow> generate_groups R now gs (records @ group_records) rid' s')"

text \<open>\<open>generate_large_dataset\<close>, with the number of groups as a parameter.\<close>

definition generate_large_dataset_n :: "nat \<Rightarrow> 's rng_ops \<Rightarrow> int \<Rightarrow> 's \<Rightarrow> rec list \<times> 's" where
  "generate_large_dataset_n num_groups R now s =
     (case generate_groups R now [0..<num_groups] [] 1 s of
        (records, rid, s') \<Rightarrow> shuffle R records s')"

definition generate_large_dataset :: "'s rng_ops \<Rightarrow> int \<Rightarrow> 's \<Rightarrow> rec list \<times> 's" where
  "generate_large_dataset = generate_large_dataset_n NUM_GROUPS"

text \<open>
  \<open>write_csv\<close>: the text that \<open>csv.DictWriter\<close> writes. \<open>None\<close> is written as the
  empty string, the other values through \<open>str\<close>.
\<close>

definition fieldnames :: "string list" where
  "fieldnames = [''group_id'', ''name'', ''age'', ''salary'', ''is_active'', ''created_date'',
     ''department'', ''rating'', ''record_id'']"

definition csv_str :: "pyval \<Rightarrow> string" where
  "csv_str v = (if v = PNone then [] else py_str v)"

definition rec_fields :: "rec \<Rightarrow> string list" where
  "rec_fields r =
     [group_id r, name r, csv_str (age r), csv_str (salary r),
      (if is_active r then ''True'' else ''False''),
      created_date r, csv_str (department r), csv_str (rating r), csv_str (record_id r)]"

definition write_csv :: "rec list \<Rightarrow> string" where
  "write_csv records =
     (if records = [] then [] else csv_line fieldnames @ concat (map (csv_line \<circ> rec_fields) records))"

text \<open>
  \<open>main\<close>: the seed gives the initial state, \<open>now\<close> is the day of the run; the
  result is the record sequence and the text of \<open>large_complex_dataset.csv\<close>.
\<close>

definition main_dup :: "'s rng_ops \<Rightarrow> 's \<Rightarrow> int \<Rightarrow> rec list \<times> string" where
  "main_dup R seed42 now =
     (let records = fst (generate_large_dataset R now seed42) in (records, write_csv records))"

section \<open>\<open>fresh/test_data/generate_large_test_data.py\<close>: the large test dataset\<close>

subsection \<open>\<open>numpy.random\<close>\<close>

text \<open>
  The three \<open>numpy.random\<close> samplers the script calls, over a generator state \<open>'n\<close> of
  their own (\<open>np.random.seed(42)\<close> is separate from \<open>random.seed(42)\<close>).
\<close>

record 'n np_ops =
  np_normal :: "rat \<Rightarrow> rat \<Rightarrow> 'n \<Rightarrow> rat \<times> 'n"
  np_lognormal :: "rat \<Rightarrow> rat \<Rightarrow> 'n \<Rightarrow> rat \<times> 'n"
  np_exponential :: "rat \<Rightarrow> 'n \<Rightarrow> rat \<times> 'n"

text \<open>A concrete sampler: a tape of samples, each returned as it stands.\<close>

fun np_tape_pop :: "rat \<Rightarrow> rat list \<Rightarrow> rat \<times> rat list" where
  "np_tape_pop dflt [] = (dflt, [])"
| "np_tape_pop dflt (x # xs) = (x, xs)"

definition np_tape :: "(rat list) np_ops" where
  "np_tape = \<lparr>np_normal = (\<lambda>loc scale. np_tape_pop loc),
               np_lognormal = (\<lambda>mean sigma. np_tape_pop 1),
               np_exponential = (\<lambda>scale. np_tape_pop scale)\<rparr>"

subsection \<open>Constants\<close>

definition COUNTRIES :: "string list" where
  "COUNTRIES = [''US'', ''CA'', ''UK'', ''DE'', ''FR'', ''AU'', ''JP'', ''IT'', ''BR'', ''ES'', ''NL'',
     ''SE'', ''NO'', ''DK'', ''FI'']"

definition DEVICE_TYPES :: "string list" where
  "DEVICE_TYPES = [''iphone'', ''android'', ''desktop'', ''tablet'', ''smartwatch'']"

definition OS_VERSIONS :: "(string \<times> string list) list" where
  "OS_VERSIONS =
     [(''iphone'', [''iOS 16.0'', ''iOS 16.1'', ''iOS 16.2'', ''iOS 16.3'', ''iOS 16.4'', ''iOS 16.5'',
                    ''iOS 16.6'', ''iOS 17.0'', ''iOS 17.1'', ''iOS 17.2'']),
      (''android'', [''Android 12'', ''Android 13'', ''Android 14'']),
      (''desktop'', [''Windows 10'', ''Windows 11'', ''MacOS 13'', ''MacOS 14'', ''Ubuntu 22.04'',
                     ''Ubuntu 23.04'']),
      (''tablet'', [''iPadOS 16'', ''iPadOS 17'', ''Android 13'', ''Android 14'']),
      (''smartwatch'', [''watchOS 9'', ''watchOS 10'', ''WearOS 4''])]"

text \<open>\<open>OS_VERSIONS.get(device_type, ['Unknown'])\<close>.\<close>

definition os_versions_get :: "string \<Rightarrow> string list" where
  "os_versions_get device_type =
     (case map_of OS_VERSIONS device_type of None \<Rightarrow> [''Unknown''] | Some vs \<Rightarrow> vs)"

definition EMAIL_DOMAINS :: "string list" where
  "EMAIL_DOMAINS = [''gmail.com'', ''outlook.com'', ''yahoo.com'', ''hotmail.com'', ''icloud.com'',
     ''protonmail.com'']"

definition REFERRAL_SOURCES :: "string list" where
  "REFERRAL_SOURCES = [''google'', ''facebook'', ''instagram'', ''twitter'', ''email'', ''direct'',
     ''organic'', ''paid'', ''referral'']"

definition PAYMENT_METHODS :: "string list" where
  "PAYMENT_METHODS = [''credit_card'', ''paypal'', ''debit_card'', ''apple_pay'', ''google_pay'',
     ''bank_transfer'']"

definition SUBSCRIPTION_TYPES :: "string list" where
  "SUBSCRIPTION_TYPES = [''monthly'', ''annual'', ''quarterly'', ''weekly'']"

definition PREMIUM_TIERS :: "string list" where
  "PREMIUM_TIERS = [''free'', ''standard'', ''premium'', ''enterprise'']"

text \<open>The list \<open>null_types\<close> that every null-injecting generator declares locally.\<close>

definition null_types :: "string list" where
  "null_types = ['''', ''null'', ''NULL'', ''-'', ''N/A'']"

subsection \<open>Field generators\<close>

definition generate_realistic_age :: "'n np_ops \<Rightarrow> 'n \<Rightarrow> int \<times> 'n" where
  "generate_realistic_age N n = (case np_normal N 35 12 n of (x, n') \<Rightarrow> (py_trunc x, n'))"

definition generate_realistic_income :: "'n np_ops \<Rightarrow> 'n \<Rightarrow> int \<times> 'n" where
  "generate_realistic_income N n =
     (case np_lognormal N (21 / 2) (1 / 2) n of (x, n') \<Rightarrow> (py_trunc (x * 1000), n'))"

definition generate_boolean_with_null_probability :: "'s rng_ops \<Rightarrow> rat \<Rightarrow> 's \<Rightarrow> string \<times> 's" where
  "generate_boolean_with_null_probability R null_prob s =
     (case rng_random R s of
        (u, s1) \<Rightarrow> if u < null_prob then choice R null_types s1 else choice R [''true'', ''false''] s1)"

definition generate_float_with_null_probability ::
    "'s rng_ops \<Rightarrow> rat \<Rightarrow> rat \<Rightarrow> rat \<Rightarrow> 's \<Rightarrow> string \<times> 's" where
  "generate_float_with_null_probability R min_val max_val null_prob s =
     (case rng_random R s of
        (u, s1) \<Rightarrow>
          if u < null_prob then choice R null_types s1
          else (case uniform R min_val max_val s1 of (x, s2) \<Rightarrow> (fmt_fixed 2 x, s2)))"

definition generate_integer_with_null_probability ::
    "'s rng_ops \<Rightarrow> int \<Rightarrow> int \<Rightarrow> rat \<Rightarrow> 's \<Rightarrow> string \<times> 's" where
  "generate_integer_with_null_probability R min_val max_val null_prob s =
     (case rng_random R s of
        (u, s1) \<Rightarrow>
          if u < null_prob then choice R null_types s1
          else (case randint R min_val max_val s1 of (k, s2) \<Rightarrow> (str_int k, s2)))"

definition generate_date_with_null_probability ::
    "'s rng_ops \<Rightarrow> int \<Rightarrow> int \<Rightarrow> rat \<Rightarrow> 's \<Rightarrow> string \<times> 's" where
  "generate_date_with_null_probability R start_date end_date null_prob s =
     (case rng_random R s of
        (u, s1) \<Rightarrow>
          if u < null_prob then choice R null_types s1
          else
            let days_between = end_date - start_date;
                (random_days, s2) = randint R 0 days_between s1;
                random_date = start_date + random_days
            in (strftime_ymd random_date, s2))"

definition generate_time_with_null_probability :: "'s rng_ops \<Rightarrow> rat \<Rightarrow> 's \<Rightarrow> string \<times> 's" where
  "generate_time_with_null_probability R null_prob s =
     (case rng_random R s of
        (u, s1) \<Rightarrow>
          if u < null_prob then choice R null_types s1
          else
            let (hour, s2) = randint R 0 23 s1;
                (minute, s3) = randint R 0 59 s2;
                (second, s4) = randint R 0 59 s3
            in (zpad 2 hour @ '':'' @ zpad 2 minute @ '':'' @ zpad 2 second, s4))"

definition generate_datetime_with_null_probability ::
    "'s rng_ops \<Rightarrow> int \<Rightarrow> int \<Rightarrow> rat \<Rightarrow> 's \<Rightarrow> string \<times> 's" where
  "generate_datetime_with_null_probability R start_date end_date null_prob s =
     (case rng_random R s of
        (u, s1) \<Rightarrow>
          if u < null_prob then choice R null_types s1
          else
            let days_between = end_date - start_date;
                (random_days, s2) = randint R 0 days_between s1;
                random_date = start_date + random_days;
                (hour, s3) = randint R 0 23 s2;
                (minute, s4) = randint R 0 59 s3;
                (second, s5) = randint R 0 59 s4;
                (millisecond, s6) = randint R 0 999 s5
            in (strftime_ymd random_date @ ''T'' @ zpad 2 hour @ '':'' @ zpad 2 minute @ '':'' @
                zpad 2 second @ ''.'' @ zpad 3 millisecond @ ''Z'', s6))"

definition generate_realistic_score :: "'s rng_ops \<Rightarrow> 's \<Rightarrow> string \<times> 's" where
  "generate_realistic_score R = generate_float_with_null_probability R 0 100 (2 / 100)"

definition generate_realistic_rating :: "'s rng_ops \<Rightarrow> 's \<Rightarrow> string \<times> 's" where
  "generate_realistic_rating R = generate_float_with_null_probability R 1 5 (1 / 100)"

definition generate_realistic_balance :: "'s rng_ops \<Rightarrow> 's \<Rightarrow> string \<times> 's" where
  "generate_realistic_balance R = generate_float_with_null_probability R 0 10000 (5 / 100)"

definition generate_realistic_spend :: "'s rng_ops \<Rightarrow> 's \<Rightarrow> string \<times> 's" where
  "generate_realistic_spend R = generate_float_with_null_probability R 0 500 (3 / 100)"

definition cities :: "(rat \<times> rat) list" where
  "cities =
     [(407128 / 10000, - 740060 / 10000),
      (340522 / 10000, - 1182437 / 10000),
      (515074 / 10000, - 1278 / 10000),
      (488566 / 10000, 23522 / 10000),
      (525200 / 10000, 134050 / 10000),
      (356762 / 10000, 1396503 / 10000),
      (419028 / 10000, 124964 / 10000),
      (- 338688 / 10000, 1512093 / 10000),
      (436532 / 10000, - 793832 / 10000),
      (- 235505 / 10000, - 466333 / 10000)]"

definition generate_realistic_coordinates :: "'s rng_ops \<Rightarrow> 's \<Rightarrow> (rat \<times> rat) \<times> 's" where
  "generate_realistic_coordinates R s =
     (let (base_city, s1) = choice R cities s;
          (dlat, s2) = uniform R (- (1 / 10)) (1 / 10) s1;
          lat = fst base_city + dlat;
          (dlng, s3) = uniform R (- (1 / 10)) (1 / 10) s2;
          lng = snd base_city + dlng
      in ((lat, lng), s3))"

definition generate_realistic_session_duration :: "'n np_ops \<Rightarrow> 'n \<Rightarrow> string \<times> 'n" where
  "generate_realistic_session_duration N n =
     (case np_exponential N 15 n of
        (x, n') \<Rightarrow> (let minutes = x + 5 in (str_int (py_trunc (minutes * 60)), n')))"

definition generate_realistic_page_views :: "'n np_ops \<Rightarrow> 'n \<Rightarrow> string \<times> 'n" where
  "generate_realistic_page_views N n =
     (case np_exponential N 20 n of
        (x, n') \<Rightarrow> (let views = x + 5 in (str_int (py_trunc views), n')))"

definition generate_realistic_conversion_rate :: "'s rng_ops \<Rightarrow> 's \<Rightarrow> string \<times> 's" where
  "generate_realistic_conversion_rate R = generate_float_with_null_probability R 0 (1 / 10) (15 / 100)"

definition generate_realistic_churn_probability :: "'s rng_ops \<Rightarrow> 's \<Rightarrow> string \<times> 's" where
  "generate_realistic_churn_probability R = generate_float_with_null_probability R 0 1 (10 / 100)"

definition first_names :: "string list" where
  "first_names = [''john'', ''sarah'', ''mike'', ''anna'', ''pierre'', ''emma'', ''taro'', ''marco'',
     ''maria'', ''carlos'']"

definition last_names :: "string list" where
  "last_names = [''doe'', ''smith'', ''wilson'', ''mueller'', ''dupont'', ''brown'', ''yamamoto'',
     ''rossi'', ''silva'', ''garcia'']"

definition generate_username :: "'s rng_ops \<Rightarrow> 's \<Rightarrow> string \<times> 's" where
  "generate_username R s =
     (case rng_random R s of
        (u, s1) \<Rightarrow>
          if u < 8 / 10
          then
            let (first, s2) = choice R first_names s1;
                (last, s3) = choice R last_names s2
            in (first @ ''_'' @ last, s3)
          else choice R null_types s1)"

definition timezones :: "string list" where
  "timezones = [''UTC-8'', ''UTC-7'', ''UTC-6'', ''UTC-5'', ''UTC-4'', ''UTC-3'', ''UTC-2'', ''UTC-1'',
     ''UTC+0'', ''UTC+1'', ''UTC+2'', ''UTC+3'', ''UTC+4'', ''UTC+5'', ''UTC+6'', ''UTC+7'', ''UTC+8'',
     ''UTC+9'', ''UTC+10'', ''UTC+11'', ''UTC+12'']"

definition generate_timezone :: "'s rng_ops \<Rightarrow> 's \<Rightarrow> string \<times> 's" where
  "generate_timezone R s = choice R timezones s"

definition generate_app_version :: "'s rng_ops \<Rightarrow> 's \<Rightarrow> string \<times> 's" where
  "generate_app_version R s =
     (let (major, s1) = randint R 1 3 s;
          (minor, s2) = randint R 0 9 s1;
          (patch, s3) = randint R 0 9 s2
      in (str_int major @ ''.'' @ str_int minor @ ''.'' @ str_int patch, s3))"

subsection \<open>\<open>generate_row\<close>\<close>

text \<open>
  The state is the pair of the two generator states. The local variables keep their
  names; the result is the list the function returns, in its order.
\<close>

definition generate_row :: "'s rng_ops \<Rightarrow> 'n np_ops \<Rightarrow> int \<Rightarrow> 's \<times> 'n \<Rightarrow> string list \<times> ('s \<times> 'n)" where
  "generate_row R N user_id st =
     (let s0 = fst st; n0 = snd st;
          (age, n1) = generate_realistic_age N n0;
          age = max 18 (min 75 age);
          (income, n2) = generate_realistic_income N n1;
          income = max 20000 (min 200000 income);
          (is_active, s1) = generate_boolean_with_null_probability R (2 / 100) s0;
          (has_verified_email, s2) = generate_boolean_with_null_probability R (3 / 100) s1;
          (is_premium, s3) = generate_boolean_with_null_probability R (2 / 100) s2;
          start_date = ymd2ord 2023 1 1;
          end_date = ymd2ord 2023 12 31;
          (registration_date, s4) = generate_date_with_null_probability R start_date end_date (1 / 100) s3;
          join_date = registration_date;
          (last_login_time, s5) = generate_time_with_null_probability R (2 / 100) s4;
          (created_at, s6) = generate_datetime_with_null_probability R start_date end_date (1 / 100) s5;
          (last_purchase_date, s7) = generate_datetime_with_null_probability R start_date end_date (5 / 100) s6;
          (country_code, s8) = choice R COUNTRIES s7;
          (premium_tier, s9) = choice R PREMIUM_TIERS s8;
          (subscription_type, s10) = choice R SUBSCRIPTION_TYPES s9;
          (payment_method, s11) = choice R PAYMENT_METHODS s10;
          (email_domain, s12) = choice R EMAIL_DOMAINS s11;
          (referral_source, s13) = choice R REFERRAL_SOURCES s12;
          (device_type, s14) = choice R DEVICE_TYPES s13;
          (os_version, s15) = choice R (os_versions_get device_type) s14;
          (score, s16) = generate_realistic_score R s15;
          (rating, s17) = generate_realistic_rating R s16;
          (login_count, s18) = generate_integer_with_null_probability R 0 500 (2 / 100) s17;
          (account_balance, s19) = generate_realistic_balance R s18;
          (monthly_spend, s20) = generate_realistic_spend R s19;
          (latlng, s21) = generate_realistic_coordinates R s20;
          location_lat = fmt_fixed 4 (fst latlng);
          location_lng = fmt_fixed 4 (snd latlng);
          (session_duration, n3) = generate_realistic_session_duration N n2;
          (page_views, n4) = generate_realistic_page_views N n3;
          (conversion_rate, s22) = generate_realistic_conversion_rate R s21;
          (churn_probability, s23) = generate_realistic_churn_probability R s22;
          (username, s24) = generate_username R s23;
          (timezone, s25) = generate_timezone R s24;
          (app_version, s26) = generate_app_version R s25
      in ([str_int user_id, str_int age, str_int income, is_active, registration_date,
           last_login_time, premium_tier, country_code, score, rating, has_verified_email,
           username, created_at, login_count, subscription_type, payment_method,
           account_balance, monthly_spend, is_premium, email_domain, join_date, timezone,
           last_purchase_date, referral_source, device_type, os_version, app_version,
           location_lat, location_lng, session_duration, page_views, conversion_rate,
           churn_probability],
          (s26, n4)))"

subsection \<open>\<open>main\<close>: the serializer\<close>

definition headers :: "string list" where
  "headers = [''user_id'', ''age'', ''income'', ''is_active'', ''registration_date'', ''last_login_time'',
     ''premium_tier'', ''country_code'', ''score'', ''rating'', ''has_verified_email'', ''username'',
     ''created_at'', ''login_count'', ''subscription_type'', ''payment_method'', ''account_balance'',
     ''monthly_spend'', ''is_premium'', ''email_domain'', ''join_date'', ''timezone'',
     ''last_purchase_date'', ''referral_source'', ''device_type'', ''os_version'', ''app_version'',
     ''location_lat'', ''location_lng'', ''session_duration'', ''page_views'', ''conversion_rate'',
     ''churn_probability'']"

definition file_structure :: "string list" where
  "file_structure =
     [''# Large Complex Test Dataset'',
      ''# This file contains ~100,000 rows of realistic data with various distributions and null patterns'',
      ''# Used to test CSV import functionality, type inference, and data handling'',
      '''',
      ''# Fake header line to test header row selection'',
      ''Fake Header Line - Ignore This'',
      '''',
      ''# Another fake line'',
      ''Another fake line with some text'',
      '''',
      ''# Real headers start here'',
      join_comma headers,
      '''',
      ''# Data starts here - 100,000 rows with realistic patterns'']"

definition garbage_lines :: "string list" where
  "garbage_lines =
     [''This is a garbage line that should be ignored'',
      ''ooOOoooo We end here.'',
      [CHR ''R'', CHR ''a'', CHR ''n'', CHR ''d'', CHR ''o'', CHR ''m'', CHR '' '', CHR ''t'', CHR ''e'',
       CHR ''x'', CHR ''t'', CHR '' '', CHR ''t'', CHR ''h'', CHR ''a'', CHR ''t'', CHR '' '', CHR ''d'',
       CHR ''o'', CHR ''e'', CHR ''s'', CHR ''n'', CHR 0x27, CHR ''t'', CHR '' '', CHR ''m'', CHR ''a'',
       CHR ''t'', CHR ''c'', CHR ''h'', CHR '' '', CHR ''t'', CHR ''h'', CHR ''e'', CHR '' '', CHR ''p'',
       CHR ''a'', CHR ''t'', CHR ''t'', CHR ''e'', CHR ''r'', CHR ''n''],
      ''ERROR: Invalid data format'',
      ''DEBUG: Processing row data'']"

text \<open>
  The loop \<open>for i in range(1, 100001)\<close> of \<open>main\<close>, over the list of its indices, with
  the two intervals (5000 and 10000 in the source) as parameters; they are positive
  (\<open>i % 0\<close> would raise). The result is the sequence of rows handed to
  \<open>writer.writerow\<close>.
\<close>

fun write_rows :: "'s rng_ops \<Rightarrow> 'n np_ops \<Rightarrow> nat \<Rightarrow> nat \<Rightarrow> nat list \<Rightarrow> 's \<times> 'n \<Rightarrow> string list list \<times> ('s \<times> 'n)" where
  "write_rows R N e g [] st = ([], st)"
| "write_rows R N e g (i # is) st =
     (let (row, st1) = generate_row R N (int i) st;
          empty_rows = (if i mod e = 0 then [replicate (length headers) []] else []);
          (garbage_rows, st2) =
            (if i mod g = 0
             then (case choice R garbage_lines (fst st1) of
                     (text, s') \<Rightarrow> ([text # replicate (length headers - 1) []], (s', snd st1)))
             else ([], st1));
          (rest, st3) = write_rows R N e g is st2
      in ([row] @ empty_rows @ garbage_rows @ rest, st3))"

definition main_rows :: "'s rng_ops \<Rightarrow> 'n np_ops \<Rightarrow> nat \<Rightarrow> nat \<Rightarrow> nat \<Rightarrow> 's \<times> 'n \<Rightarrow> string list list" where
  "main_rows R N num_rows e g st = fst (write_rows R N e g [1..<num_rows + 1] st)"

text \<open>The text of \<open>test_large_complex.csv\<close>.\<close>

definition main_text :: "'s rng_ops \<Rightarrow> 'n np_ops \<Rightarrow> nat \<Rightarrow> nat \<Rightarrow> nat \<Rightarrow> 's \<times> 'n \<Rightarrow> string" where
  "main_text R N num_rows e g st =
     concat (map (\<lambda>line. line @ [CHR 0x0A]) file_structure) @
     concat (map csv_line (main_rows R N num_rows e g st))"

definition main_fresh :: "'s rng_ops \<Rightarrow> 'n np_ops \<Rightarrow> 's \<times> 'n \<Rightarrow> string" where
  "main_fresh R N st = main_text R N 100000 5000 10000 st"

subsection \<open>The null injector as the specification words it\<close>

text \<open>
  The specification's null injector, for comparison with the generators above: it draws
  a uniform number first; below the null probability it returns
  \<open>random.choice\<close> of the five sentinels and does not call the wrapped generator;
  otherwise it returns what the wrapped generator produces from the next state.
\<close>

definition spec_null_injector :: "'s rng_ops \<Rightarrow> rat \<Rightarrow> ('s \<Rightarrow> string \<times> 's) \<Rightarrow> 's \<Rightarrow> string \<times> 's" where
  "spec_null_injector R null_prob wrapped s =
     (case rng_random R s of
        (u, s1) \<Rightarrow> if u < null_prob then choice R null_types s1 else wrapped s1)"

text \<open>
  A field generator with a null probability is such an injector when one wrapped
  generator serves every null probability and every state.
\<close>

definition is_null_injector :: "'s rng_ops \<Rightarrow> (rat \<Rightarrow> 's \<Rightarrow> string \<times> 's) \<Rightarrow> bool" where
  "is_null_injector R G =
     (\<exists>wrapped. \<forall>null_prob s. G null_prob s = spec_null_injector R null_prob wrapped s)"

subsection \<open>Identifier ranges\<close>

text \<open>
  For the proof that identifiers are never reused: the identifier strings owned by the
  counter values from \<open>lo\<close> up to \<open>hi\<close>, that is the decimal of such a value or that
  decimal followed by a \<open>_dup_\<close> suffix.
\<close>

definition ids_between :: "int \<Rightarrow> int \<Rightarrow> string set" where
  "ids_between lo hi =
     {x. \<exists>i. lo \<le> i \<and> i < hi \<and> (x = str_int i \<or> (\<exists>j. x = str_int i @ ''_dup_'' @ str_int j))}"

subsection \<open>The layout of the written rows\<close>

text \<open>
  For stating where the serializer puts its rows: the fully empty row, a garbage row (a
  garbage text followed by empty fields up to the header's width), and the index in the
  written sequence of the data row with 1-based number \<open>i\<close>, which is preceded by
  \<open>i - 1\<close> data rows and by the empty and garbage rows of the earlier multiples.
\<close>

definition is_empty_row :: "string list \<Rightarrow> bool" where
  "is_empty_row r = (r = replicate (length headers) [])"

definition is_garbage_row :: "string list \<Rightarrow> bool" where
  "is_garbage_row r =
     (r \<noteq> [] \<and> hd r \<in> set garbage_lines \<and> tl r = replicate (length headers - 1) [])"

definition row_pos :: "nat \<Rightarrow> nat \<Rightarrow> nat \<Rightarrow> nat" where
  "row_pos e g i = (i - 1) + (i - 1) div e + (i - 1) div g"

text \<open>The kinds of rows that one pass of the loop writes, in order, and their shapes.\<close>

datatype row_kind = DataRow nat | EmptyRow | GarbageRow

fun kind_ok :: "row_kind \<Rightarrow> string list \<Rightarrow> bool" where
  "kind_ok (DataRow i) r = (length r = length headers \<and> hd r = str_int (int i))"
| "kind_ok EmptyRow r = is_empty_row r"
| "kind_ok GarbageRow r = is_garbage_row r"

definition block_kinds :: "nat \<Rightarrow> nat \<Rightarrow> nat \<Rightarrow> row_kind list" where
  "block_kinds e g i =
     [DataRow i] @ (if i mod e = 0 then [EmptyRow] else []) @ (if i mod g = 0 then [GarbageRow] else [])"

definition expected_kinds :: "nat \<Rightarrow> nat \<Rightarrow> nat list \<Rightarrow> row_kind list" where
  "expected_kinds e g is = concat (map (block_kinds e g) is)"

section \<open>Properties\<close>

subsection \<open>Decimal strings\<close>

lemma digit_char_cases:
  assumes "d < 10"
  shows "digit_char d \<in> set ''0123456789''"
proof -
  have "''0123456789'' ! d \<in> set ''0123456789''"
    by (rule nth_mem) (use assms in simp)
  then show ?thesis by (simp only: digit_char_def)
qed

lemma digit_char_inj:
  assumes "a < 10" and "b < 10" and "digit_char a = digit_char b"
  shows "a = b"
proof -
  have d: "distinct ''0123456789''" by simp
  have "a < length ''0123456789''" "b < length ''0123456789''" using assms by simp_all
  with d assms(3) show ?thesis
    unfolding digit_char_def by (simp only: nth_eq_iff_index_eq)
qed

lemma str_nat_digits: "set (str_nat n) \<subseteq> set ''0123456789''"
proof (induction n rule: str_nat.induct)
  case (1 n)
  show ?case
  proof (cases "n < 10")
    case True
    then show ?thesis
      using digit_char_cases [of n] by (subst str_nat.simps) simp
  next
    case False
    have "n mod 10 < 10" by simp
    from digit_char_cases [OF this] 1 [OF False] False show ?thesis
      by (subst str_nat.simps) simp
  qed
qed

lemma str_nat_nonempty: "str_nat n \<noteq> []"
  by (subst str_nat.simps) simp

lemma str_nat_inj: "str_nat n = str_nat m \<Longrightarrow> n = m"
proof (induction n arbitrary: m rule: str_nat.induct)
  case (1 n)
  show ?case
  proof (cases "n < 10")
    case n: True
    show ?thesis
    proof (cases "m < 10")
      case True
      with n "1.prems" have "digit_char n = digit_char m"
        by (simp add: str_nat.simps [of n] str_nat.simps [of m])
      with n True show ?thesis by (blast intro: digit_char_inj)
    next
      case False
      with n "1.prems" str_nat_nonempty [of "m div 10"] show ?thesis
        by (simp add: str_nat.simps [of n] str_nat.simps [of m])
    qed
  next
    case n: False
    show ?thesis
    proof (cases "m < 10")
      case True
      with n "1.prems" str_nat_nonempty [of "n div 10"] show ?thesis
        by (simp add: str_nat.simps [of n] str_nat.simps [of m])
    next
      case False
      with n "1.prems" have e: "str_nat (n div 10) = str_nat (m div 10)"
        "digit_char (n mod 10) = digit_char (m mod 10)"
        by (simp_all add: str_nat.simps [of n] str_nat.simps [of m])
      from "1.IH" [OF n e(1)] have "n div 10 = m div 10" .
      moreover have "n mod 10 = m mod 10"
        by (rule digit_char_inj [OF _ _ e(2)]) simp_all
      ultimately show ?thesis by (metis div_mult_mod_eq)
    qed
  qed
qed

lemma str_int_no_underscore: "CHR ''_'' \<notin> set (str_int i)"
  using str_nat_digits [of "nat i"] str_nat_digits [of "nat (- i)"]
  by (auto simp: str_int_def)

lemma str_int_nonempty: "str_int i \<noteq> []"
  by (simp add: str_int_def str_nat_nonempty)

lemma str_int_inj: "str_int i = str_int j \<Longrightarrow> i = j"
proof -
  assume e: "str_int i = str_int j"
  have nd: "hd (str_nat n) \<noteq> CHR ''-''" for n
  proof -
    have "hd (str_nat n) \<in> set (str_nat n)"
      by (rule hd_in_set [OF str_nat_nonempty])
    with str_nat_digits [of n] show ?thesis by auto
  qed
  show ?thesis
  proof (cases "i < 0")
    case i: True
    show ?thesis
    proof (cases "j < 0")
      case True
      with i e have "str_nat (nat (- i)) = str_nat (nat (- j))" by (simp add: str_int_def)
      from str_nat_inj [OF this] i True show ?thesis by simp
    next
      case False
      with i have "hd (str_int i) = CHR ''-''" "hd (str_int j) = hd (str_nat (nat j))"
        by (simp_all add: str_int_def)
      with e nd [of "nat j"] show ?thesis by simp
    qed
  next
    case i: False
    show ?thesis
    proof (cases "j < 0")
      case True
      with i have "hd (str_int j) = CHR ''-''" "hd (str_int i) = hd (str_nat (nat i))"
        by (simp_all add: str_int_def)
      with e nd [of "nat i"] show ?thesis by simp
    next
      case False
      with i e have "str_nat (nat i) = str_nat (nat j)" by (simp add: str_int_def)
      from str_nat_inj [OF this] i False show ?thesis by simp
    qed
  qed
qed

lemma dup_suffix_inj:
  assumes "a @ ''_dup_'' @ x = b @ ''_dup_'' @ y"
    and "CHR ''_'' \<notin> set a" and "CHR ''_'' \<notin> set b"
  shows "a = b \<and> x = y"
proof -
  have tw: "CHR ''_'' \<notin> set u \<Longrightarrow> takeWhile (\<lambda>c. c \<noteq> CHR ''_'') (u @ ''_dup_'' @ v) = u" for u v
  proof -
    assume "CHR ''_'' \<notin> set u"
    then have "takeWhile (\<lambda>c. c \<noteq> CHR ''_'') (u @ ''_dup_'' @ v) =
        u @ takeWhile (\<lambda>c. c \<noteq> CHR ''_'') (''_dup_'' @ v)"
      by (intro takeWhile_append2) auto
    then show ?thesis by simp
  qed
  have "takeWhile (\<lambda>c. c \<noteq> CHR ''_'') (a @ ''_dup_'' @ x) = a"
    by (rule tw [OF assms(2)])
  moreover have "takeWhile (\<lambda>c. c \<noteq> CHR ''_'') (b @ ''_dup_'' @ y) = b"
    by (rule tw [OF assms(3)])
  ultimately have "a = b" using assms(1) by simp
  with assms(1) show ?thesis by simp
qed


subsection \<open>The random primitives\<close>

lemma tape_rng_ok: "rng_ok tape_rng"
proof -
  have r: "0 \<le> fst (tape_random s) \<and> fst (tape_random s) < 1" for s
    by (cases s) simp_all
  have b: "0 < n \<Longrightarrow> fst (tape_randbelow n s) < n" for n s
    by (cases s) simp_all
  show ?thesis
    unfolding rng_ok_def tape_rng_def using r b by simp
qed

lemma choice_mem:
  assumes "rng_ok R" and "xs \<noteq> []"
  shows "fst (choice R xs s) \<in> set xs"
  using assms by (simp add: choice_def rng_ok_def split_beta)

lemma randint_bounds:
  assumes "rng_ok R" and "a \<le> b"
  shows "a \<le> fst (randint R a b s) \<and> fst (randint R a b s) \<le> b"
proof -
  have "0 < nat (b - a + 1)" using assms(2) by simp
  then have "fst (rng_randbelow R (nat (b - a + 1)) s) < nat (b - a + 1)"
    using assms(1) by (simp add: rng_ok_def)
  then show ?thesis by (simp add: randint_def split_beta)
qed





lemma null_types_nonempty: "null_types \<noteq> []"
  by (simp add: null_types_def)

lemma choice_null: "rng_ok R \<Longrightarrow> fst (choice R null_types s) \<in> set null_types"
  by (rule choice_mem [OF _ null_types_nonempty])






lemma row_income:
  "fst (generate_row R N user_id st) ! 2 =
     str_int (max 20000 (min 200000
       (py_trunc (fst (np_lognormal N (21 / 2) (1 / 2) (snd (np_normal N 35 12 (snd st)))) * 1000))))"
  by (simp add: generate_row_def Let_def split_beta generate_realistic_income_def generate_realistic_age_def)

lemma str_200000: "str_int 200000 = ''200000''" by (simp add: str_int_def str_nat.simps digit_char_def)
lemma str_500000: "str_int 500000 = ''500000''" by (simp add: str_int_def str_nat.simps digit_char_def)

lemma os_versions_nonempty: "d \<in> set DEVICE_TYPES \<Longrightarrow> \<exists>vs. map_of OS_VERSIONS d = Some vs \<and> vs \<noteq> []"
  by (auto simp: DEVICE_TYPES_def OS_VERSIONS_def)

lemma os_versions_mem:
  assumes "rng_ok R" and "d \<in> set DEVICE_TYPES"
  shows "\<exists>vs. map_of OS_VERSIONS d = Some vs \<and> fst (choice R (os_versions_get d) s) \<in> set vs"
proof -
  from os_versions_nonempty [OF assms(2)] obtain vs where vs: "map_of OS_VERSIONS d = Some vs" "vs \<noteq> []"
    by blast
  then have "os_versions_get d = vs" by (simp add: os_versions_get_def)
  with choice_mem [OF assms(1) vs(2), of s] vs(1) show ?thesis by simp
qed

lemma row_device_os:
  "\<exists>s. fst (generate_row R N user_id st) ! 24 = fst (choice R DEVICE_TYPES s) \<and>
       fst (generate_row R N user_id st) ! 25 =
         fst (choice R (os_versions_get (fst (choice R DEVICE_TYPES s))) (snd (choice R DEVICE_TYPES s)))"
  by (simp add: generate_row_def Let_def split_beta) blast

lemma DEVICE_TYPES_nonempty: "DEVICE_TYPES \<noteq> []"
  by (simp add: DEVICE_TYPES_def)

lemma gen_float_spec:
  "generate_float_with_null_probability R lo hi p s =
     spec_null_injector R p (\<lambda>s1. (fmt_fixed 2 (fst (uniform R lo hi s1)), snd (uniform R lo hi s1))) s"
  by (simp add: generate_float_with_null_probability_def spec_null_injector_def split_beta)

lemma gen_boolean_spec:
  "generate_boolean_with_null_probability R p s =
     spec_null_injector R p (choice R [''true'', ''false'']) s"
  by (simp add: generate_boolean_with_null_probability_def spec_null_injector_def split_beta)

lemma gen_integer_spec:
  "generate_integer_with_null_probability R lo hi p s =
     spec_null_injector R p (\<lambda>s1. (str_int (fst (randint R lo hi s1)), snd (randint R lo hi s1))) s"
  by (simp add: generate_integer_with_null_probability_def spec_null_injector_def split_beta)

lemma gen_date_spec:
  "generate_date_with_null_probability R lo hi p s =
     spec_null_injector R p
       (\<lambda>s1. (strftime_ymd (lo + fst (randint R 0 (hi - lo) s1)), snd (randint R 0 (hi - lo) s1))) s"
  by (simp add: generate_date_with_null_probability_def spec_null_injector_def split_beta Let_def)

lemma gen_time_spec:
  "\<exists>wrapped. \<forall>p s. generate_time_with_null_probability R p s = spec_null_injector R p wrapped s"
  by (rule exI [of _ "\<lambda>s1. (zpad 2 (fst (randint R 0 23 s1)) @ '':'' @
          zpad 2 (fst (randint R 0 59 (snd (randint R 0 23 s1)))) @ '':'' @
          zpad 2 (fst (randint R 0 59 (snd (randint R 0 59 (snd (randint R 0 23 s1)))))),
        snd (randint R 0 59 (snd (randint R 0 59 (snd (randint R 0 23 s1))))))"])
     (simp add: generate_time_with_null_probability_def spec_null_injector_def split_beta Let_def)




















lemma clamp_str: "lo \<le> hi \<Longrightarrow> str_int (max lo (min hi x)) \<in> str_int ` {lo..hi}"
  by simp



lemma date_2026_11_03: "strftime_ymd 739923 = ''2026-11-03''"
  by (simp add: strftime_ymd_def ord2ymd_def Let_def zpad_def str_nat.simps digit_char_def
      DAYS_BEFORE_MONTH_def DAYS_IN_MONTH_def)

lemma gen_datetime_spec:
  "\<exists>wrapped. \<forall>p s. generate_datetime_with_null_probability R lo hi p s = spec_null_injector R p wrapped s"
proof -
  define wrapped where "wrapped = (\<lambda>s1.
    let days_between = hi - lo;
        (random_days, s2) = randint R 0 days_between s1;
        random_date = lo + random_days;
        (hour, s3) = randint R 0 23 s2;
        (minute, s4) = randint R 0 59 s3;
        (second, s5) = randint R 0 59 s4;
        (millisecond, s6) = randint R 0 999 s5
    in (strftime_ymd random_date @ ''T'' @ zpad 2 hour @ '':'' @ zpad 2 minute @ '':'' @
        zpad 2 second @ ''.'' @ zpad 3 millisecond @ ''Z'', s6))"
  have "\<forall>p s. generate_datetime_with_null_probability R lo hi p s = spec_null_injector R p wrapped s"
    by (simp add: generate_datetime_with_null_probability_def spec_null_injector_def wrapped_def Let_def split_beta cong: if_cong)
  then show ?thesis by blast
qed


subsection \<open>The join date\<close>

text \<open>
  C9. In every generated row the \<open>join_date\<close> field (column 20) equals the
  \<open>registration_date\<close> field (column 4), whatever the generators and their states are,
  so also when the registration date came out as a null sentinel: the join date is the
  registration date's value and draws nothing of its own.
\<close>

theorem join_date_is_registration_date:
  "fst (generate_row R N user_id st) ! 20 = fst (generate_row R N user_id st) ! 4 \<and>
   headers ! 20 = ''join_date'' \<and> headers ! 4 = ''registration_date''"
  by (simp add: generate_row_def Let_def split_beta headers_def)

subsection \<open>Device type and OS version\<close>

text \<open>
  C3. In every generated row the \<open>device_type\<close> field (column 24) is one of
  \<open>DEVICE_TYPES\<close>, the \<open>os_version\<close> field (column 25) is a member of the list that
  \<open>OS_VERSIONS\<close> maps that device type to, and the OS version is drawn from the state
  that the draw of the device type leaves, with the list looked up for the device type
  just drawn.
\<close>

theorem os_version_matches_device_type:
  assumes "rng_ok R"
  shows "fst (generate_row R N user_id st) ! 24 \<in> set DEVICE_TYPES \<and>
         (\<exists>vs. map_of OS_VERSIONS (fst (generate_row R N user_id st) ! 24) = Some vs \<and>
               fst (generate_row R N user_id st) ! 25 \<in> set vs) \<and>
         (\<exists>s. fst (generate_row R N user_id st) ! 24 = fst (choice R DEVICE_TYPES s) \<and>
              fst (generate_row R N user_id st) ! 25 =
                fst (choice R (os_versions_get (fst (choice R DEVICE_TYPES s))) (snd (choice R DEVICE_TYPES s)))) \<and>
         headers ! 24 = ''device_type'' \<and> headers ! 25 = ''os_version''"
proof -
  obtain s where s: "fst (generate_row R N user_id st) ! 24 = fst (choice R DEVICE_TYPES s)"
    "fst (generate_row R N user_id st) ! 25 =
       fst (choice R (os_versions_get (fst (choice R DEVICE_TYPES s))) (snd (choice R DEVICE_TYPES s)))"
    using row_device_os [of R N user_id st] by blast
  have d: "fst (choice R DEVICE_TYPES s) \<in> set DEVICE_TYPES"
    by (rule choice_mem [OF assms DEVICE_TYPES_nonempty])
  from os_versions_mem [OF assms d, of "snd (choice R DEVICE_TYPES s)"]
  have "\<exists>vs. map_of OS_VERSIONS (fst (generate_row R N user_id st) ! 24) = Some vs \<and>
               fst (generate_row R N user_id st) ! 25 \<in> set vs"
    using s by simp
  moreover have "headers ! 24 = ''device_type'' \<and> headers ! 25 = ''os_version''"
    by (simp add: headers_def)
  ultimately show ?thesis using s d by auto
qed

text \<open>The theorem at the tape generator, on the first row of a run from empty tapes.\<close>

theorem os_version_matches_device_type_witness:
  "rng_ok tape_rng \<and>
   fst (generate_row tape_rng np_tape 1 ([], [])) ! 24 \<in> set DEVICE_TYPES \<and>
   (\<exists>vs. map_of OS_VERSIONS (fst (generate_row tape_rng np_tape 1 ([], [])) ! 24) = Some vs \<and>
         fst (generate_row tape_rng np_tape 1 ([], [])) ! 25 \<in> set vs)"
  using os_version_matches_device_type [OF tape_rng_ok, of np_tape 1 "([], [])"] tape_rng_ok
  by blast

subsection \<open>Null injection\<close>

text \<open>
  C4, as the code has it. Each of the six \<open>generate_*_with_null_probability\<close>
  generators of the large test dataset is the specification's null injector around one
  wrapped value generator: it draws \<open>random()\<close> first; when the draw is below the null
  probability the result is \<open>random.choice\<close> of the five sentinels, taken at the state
  after that draw, and the wrapped generator is not run; otherwise the result is the
  wrapped generator's, run from the state after the draw.
\<close>

theorem null_injectors_follow_spec:
  assumes "rng_ok R"
  shows "is_null_injector R (generate_boolean_with_null_probability R) \<and>
         is_null_injector R (generate_float_with_null_probability R min_val max_val) \<and>
         is_null_injector R (generate_integer_with_null_probability R imin imax) \<and>
         is_null_injector R (generate_date_with_null_probability R start_date end_date) \<and>
         is_null_injector R (generate_time_with_null_probability R) \<and>
         is_null_injector R (generate_datetime_with_null_probability R start_date end_date) \<and>
         (fst (rng_random R s) < null_prob \<longrightarrow>
            spec_null_injector R null_prob wrapped s = choice R null_types (snd (rng_random R s)) \<and>
            fst (spec_null_injector R null_prob wrapped s) \<in> set null_types) \<and>
         (\<not> fst (rng_random R s) < null_prob \<longrightarrow>
            spec_null_injector R null_prob wrapped s = wrapped (snd (rng_random R s)))"
proof -
  have 1: "is_null_injector R (generate_boolean_with_null_probability R)"
    unfolding is_null_injector_def using gen_boolean_spec [of R] by blast
  have 2: "is_null_injector R (generate_float_with_null_probability R min_val max_val)"
    unfolding is_null_injector_def using gen_float_spec [of R min_val max_val] by blast
  have 3: "is_null_injector R (generate_integer_with_null_probability R imin imax)"
    unfolding is_null_injector_def using gen_integer_spec [of R imin imax] by blast
  have 4: "is_null_injector R (generate_date_with_null_probability R start_date end_date)"
    unfolding is_null_injector_def using gen_date_spec [of R start_date end_date] by blast
  have 5: "is_null_injector R (generate_time_with_null_probability R)"
    unfolding is_null_injector_def by (rule gen_time_spec)
  have 6: "is_null_injector R (generate_datetime_with_null_probability R start_date end_date)"
    unfolding is_null_injector_def by (rule gen_datetime_spec)
  have 7: "fst (rng_random R s) < null_prob \<longrightarrow>
            spec_null_injector R null_prob wrapped s = choice R null_types (snd (rng_random R s)) \<and>
            fst (spec_null_injector R null_prob wrapped s) \<in> set null_types"
    using choice_null [OF assms] by (simp add: spec_null_injector_def split_beta)
  have 8: "\<not> fst (rng_random R s) < null_prob \<longrightarrow>
            spec_null_injector R null_prob wrapped s = wrapped (snd (rng_random R s))"
    by (simp add: spec_null_injector_def split_beta)
  show ?thesis using 1 2 3 4 5 6 7 8 by blast
qed

text \<open>
  The theorem at the tape generator: on the tape \<open>[5, 2]\<close> the first draw is 0.005,
  below the null probability 0.01 of a rating, and the rating is the sentinel at index 2.
\<close>

theorem null_injectors_follow_spec_witness:
  "rng_ok tape_rng \<and>
   is_null_injector tape_rng (generate_float_with_null_probability tape_rng 1 5) \<and>
   fst (rng_random tape_rng [5, 2]) < 1 / 100 \<and>
   fst (generate_float_with_null_probability tape_rng 1 5 (1 / 100) [5, 2]) = ''NULL''"
proof -
  have u: "fst (rng_random tape_rng [5, 2]) < 1 / 100"
    by (simp add: tape_rng_def)
  from null_injectors_follow_spec [OF tape_rng_ok, of 1 5 0 0 0 0 "[5, 2]" "1 / 100"]
  have i: "is_null_injector tape_rng (generate_float_with_null_probability tape_rng 1 5)"
    by blast
  have v: "fst (generate_float_with_null_probability tape_rng 1 5 (1 / 100) [5, 2]) = ''NULL''"
    by (simp add: generate_float_with_null_probability_def tape_rng_def choice_def null_types_def)
  show ?thesis using tape_rng_ok u i v by blast
qed

text \<open>
  Where C4 fails as stated: \<open>generate_record\<close> of the duplicate-dataset script. On the
  tape below it reads all eleven numbers. The age is drawn second (the 5, giving 27); the
  null draw for the age is the eighth number (0.05, below 0.1), and the age becomes
  \<open>None\<close>: the value generator ran before the null draw, and the null is \<open>None\<close>,
  which is none of the five sentinel strings.
\<close>

theorem generate_record_null_is_None:
  "generate_record tape_rng 739923 ''GROUP_000'' 1 [0, 5, 0, 0, 0, 0, 0, 50, 500, 500, 500] =
     (\<lparr>group_id = ''GROUP_000'', name = ''John'', age = PNone, salary = PInt 30000,
       is_active = True, created_date = ''2026-11-03'', department = PStr ''Engineering'',
       rating = PFloat 1, record_id = PInt 1\<rparr>, []) \<and>
   fst (randint tape_rng 22 65 [5, 0, 0, 0, 0, 0, 50, 500, 500, 500]) = 27 \<and>
   PNone \<notin> PStr ` set null_types"
  by (simp add: generate_record_def choice_def randint_def uniform_def tape_rng_def NAMES_def
      DEPARTMENTS_def py_round1_def round_half_even_def Let_def date_2026_11_03 image_iff)

subsection \<open>Income\<close>

text \<open>
  C6, as the code has it. The income field (column 2) of every row is the log-normal
  sample times 1000, truncated to an integer and then clamped into
  \<open>[20000, 200000]\<close>; the sample is the second draw of the \<open>numpy\<close> generator, after
  the normal draw of the age.
\<close>

theorem income_is_clamped:
  "fst (generate_row R N user_id st) ! 2 =
     str_int (max 20000 (min 200000
       (py_trunc (fst (np_lognormal N (21 / 2) (1 / 2) (snd (np_normal N 35 12 (snd st)))) * 1000)))) \<and>
   fst (generate_row R N user_id st) ! 2 \<in> str_int ` {20000..200000} \<and>
   headers ! 2 = ''income''"
proof -
  have "fst (generate_row R N user_id st) ! 2 \<in> str_int ` {20000..200000}"
    unfolding row_income by (rule clamp_str) simp
  then show ?thesis by (simp add: row_income headers_def)
qed

text \<open>
  Where C6 fails as stated: a log-normal sample of 500 (an income of 500000) is written
  as 200000.
\<close>

theorem income_clamp_counterexample:
  "fst (generate_row tape_rng np_tape 1 ([], [35, 500])) ! 2 = ''200000'' \<and>
   str_int (py_trunc (fst (np_lognormal np_tape (21 / 2) (1 / 2)
       (snd (np_normal np_tape 35 12 (snd (([]::nat list), [35, 500::rat]))))) * 1000)) = ''500000'' \<and>
   fst (generate_row tape_rng np_tape 1 ([], [35, 500])) ! 2 \<noteq>
     str_int (py_trunc (fst (np_lognormal np_tape (21 / 2) (1 / 2)
       (snd (np_normal np_tape 35 12 (snd (([]::nat list), [35, 500::rat]))))) * 1000))"
  by (simp add: row_income np_tape_def py_trunc_def str_200000 str_500000)

subsection \<open>Field domains\<close>




subsection \<open>The serializer\<close>

lemma length_headers: "length headers = 33"
  by (simp add: headers_def)

lemma garbage_lines_nonempty: "garbage_lines \<noteq> []"
  by (simp add: garbage_lines_def)

lemma garbage_text_nonempty: "t \<in> set garbage_lines \<Longrightarrow> t \<noteq> []"
  by (auto simp: garbage_lines_def)

lemma garbage_text_not_digit: "t \<in> set garbage_lines \<Longrightarrow> hd t \<notin> set ''0123456789''"
  by (auto simp: garbage_lines_def)

lemma row_shape:
  "length (fst (generate_row R N user_id st)) = length headers \<and>
   hd (fst (generate_row R N user_id st)) = str_int user_id"
  by (simp add: generate_row_def Let_def split_beta length_headers)

lemma str_int_nat_digit: "hd (str_int (int i)) \<in> set ''0123456789''"
proof -
  have "hd (str_nat i) \<in> set (str_nat i)" by (rule hd_in_set [OF str_nat_nonempty])
  with str_nat_digits [of i] show ?thesis by (auto simp: str_int_def)
qed

lemma write_rows_kinds:
  assumes "rng_ok R"
  shows "list_all2 kind_ok (expected_kinds e g is) (fst (write_rows R N e g is st))"
proof (induction "is" arbitrary: st)
  case Nil
  then show ?case by (simp add: expected_kinds_def)
next
  case (Cons i "is")
  define row where "row = fst (generate_row R N (int i) st)"
  define st1 where "st1 = snd (generate_row R N (int i) st)"
  define gtext where "gtext = fst (choice R garbage_lines (fst st1))"
  define st2 where "st2 = (if i mod g = 0 then (snd (choice R garbage_lines (fst st1)), snd st1) else st1)"
  define blk where "blk = [row] @ (if i mod e = 0 then [replicate (length headers) []] else []) @
      (if i mod g = 0 then [gtext # replicate (length headers - 1) []] else [])"
  have e: "fst (write_rows R N e g (i # is) st) = blk @ fst (write_rows R N e g is st2)"
    by (simp add: Let_def split_beta row_def st1_def gtext_def st2_def blk_def)
  have t: "gtext \<in> set garbage_lines"
    unfolding gtext_def by (rule choice_mem [OF assms garbage_lines_nonempty])
  have k1: "kind_ok (DataRow i) row"
    using row_shape [of R N "int i" st] by (simp add: row_def)
  have k2: "kind_ok EmptyRow (replicate (length headers) [])"
    by (simp add: is_empty_row_def)
  have k3: "kind_ok GarbageRow (gtext # replicate (length headers - 1) [])"
    using t by (simp add: is_garbage_row_def)
  have b: "list_all2 kind_ok (block_kinds e g i) blk"
    unfolding block_kinds_def blk_def using k1 k2 k3 by simp
  have "expected_kinds e g (i # is) = block_kinds e g i @ expected_kinds e g is"
    by (simp add: expected_kinds_def)
  with b Cons.IH [of st2] show ?case
    unfolding e by (simp add: list_all2_appendI)
qed

lemma expected_kinds_append:
  "expected_kinds e g (xs @ ys) = expected_kinds e g xs @ expected_kinds e g ys"
  by (simp add: expected_kinds_def)

lemma expected_kinds_single: "expected_kinds e g [i] = block_kinds e g i"
  by (simp add: expected_kinds_def)

lemma length_expected_kinds:
  "length (expected_kinds e g [1..<Suc n]) = n + n div e + n div g"
proof (induction n)
  case 0
  then show ?case by (simp add: expected_kinds_def)
next
  case (Suc n)
  have "[1..<Suc (Suc n)] = [1..<Suc n] @ [Suc n]" by simp
  then have "length (expected_kinds e g [1..<Suc (Suc n)]) =
      length (expected_kinds e g [1..<Suc n]) + length (block_kinds e g (Suc n))"
    by (simp only: expected_kinds_append expected_kinds_single length_append)
  with Suc show ?case
    by (simp add: block_kinds_def div_Suc)
qed

lemma count_expected_kinds:
  "length (filter (\<lambda>k. k = EmptyRow) (expected_kinds e g [1..<Suc n])) = n div e \<and>
   length (filter (\<lambda>k. k = GarbageRow) (expected_kinds e g [1..<Suc n])) = n div g"
proof (induction n)
  case 0
  then show ?case by (simp add: expected_kinds_def)
next
  case (Suc n)
  have "[1..<Suc (Suc n)] = [1..<Suc n] @ [Suc n]" by simp
  then have "expected_kinds e g [1..<Suc (Suc n)] =
      expected_kinds e g [1..<Suc n] @ block_kinds e g (Suc n)"
    by (simp only: expected_kinds_append expected_kinds_single)
  with Suc show ?case
    by (simp add: block_kinds_def div_Suc)
qed

lemma expected_kinds_split:
  assumes "1 \<le> i" and "i \<le> n"
  shows "expected_kinds e g [1..<Suc n] =
           expected_kinds e g [1..<i] @ block_kinds e g i @ expected_kinds e g [Suc i..<Suc n] \<and>
         length (expected_kinds e g [1..<i]) = row_pos e g i"
proof -
  have "[1..<i + (Suc n - i)] = [1..<i] @ [i..<i + (Suc n - i)]"
    by (rule upt_add_eq_append) (use assms in simp)
  moreover have "i + (Suc n - i) = Suc n" using assms by simp
  ultimately have "[1..<Suc n] = [1..<i] @ [i..<Suc n]" by (simp del: upt_Suc)
  moreover have "[i..<Suc n] = i # [Suc i..<Suc n]"
    using assms by (simp add: upt_conv_Cons del: upt_Suc)
  ultimately have "[1..<Suc n] = [1..<i] @ [i] @ [Suc i..<Suc n]" by (simp del: upt_Suc)
  then have 1: "expected_kinds e g [1..<Suc n] =
           expected_kinds e g [1..<i] @ block_kinds e g i @ expected_kinds e g [Suc i..<Suc n]"
    by (simp only: expected_kinds_append expected_kinds_single)
  obtain m where m: "i = Suc m" using assms(1) by (cases i) simp_all
  have "length (expected_kinds e g [1..<i]) = row_pos e g i"
    unfolding m using length_expected_kinds [of e g m] by (simp add: row_pos_def del: upt_Suc)
  with 1 show ?thesis by blast
qed

lemma expected_kinds_positions:
  assumes "1 \<le> i" and "i \<le> n"
  shows "row_pos e g i < length (expected_kinds e g [1..<Suc n]) \<and>
         expected_kinds e g [1..<Suc n] ! row_pos e g i = DataRow i \<and>
         (i mod e = 0 \<longrightarrow>
            row_pos e g i + 1 < length (expected_kinds e g [1..<Suc n]) \<and>
            expected_kinds e g [1..<Suc n] ! (row_pos e g i + 1) = EmptyRow) \<and>
         (i mod g = 0 \<longrightarrow>
            row_pos e g i + 1 + (if i mod e = 0 then 1 else 0) < length (expected_kinds e g [1..<Suc n]) \<and>
            expected_kinds e g [1..<Suc n] ! (row_pos e g i + 1 + (if i mod e = 0 then 1 else 0)) = GarbageRow)"
proof -
  define A where "A = expected_kinds e g [1..<i]"
  define C where "C = expected_kinds e g [Suc i..<Suc n]"
  from expected_kinds_split [OF assms, of e g]
  have s: "expected_kinds e g [1..<Suc n] = A @ block_kinds e g i @ C" "length A = row_pos e g i"
    unfolding A_def C_def by blast+
  have nth: "k < length (block_kinds e g i) \<Longrightarrow>
      row_pos e g i + k < length (expected_kinds e g [1..<Suc n]) \<and>
      expected_kinds e g [1..<Suc n] ! (row_pos e g i + k) = block_kinds e g i ! k" for k
    unfolding s(1) s(2) [symmetric] by (simp add: nth_append)
  have 0: "row_pos e g i < length (expected_kinds e g [1..<Suc n]) \<and>
         expected_kinds e g [1..<Suc n] ! row_pos e g i = DataRow i"
    using nth [of 0] by (simp add: block_kinds_def)
  have 1: "i mod e = 0 \<longrightarrow>
            row_pos e g i + 1 < length (expected_kinds e g [1..<Suc n]) \<and>
            expected_kinds e g [1..<Suc n] ! (row_pos e g i + 1) = EmptyRow"
    using nth [of 1] by (simp add: block_kinds_def)
  have 2: "i mod g = 0 \<longrightarrow>
            row_pos e g i + 1 + (if i mod e = 0 then 1 else 0) < length (expected_kinds e g [1..<Suc n]) \<and>
            expected_kinds e g [1..<Suc n] ! (row_pos e g i + 1 + (if i mod e = 0 then 1 else 0)) = GarbageRow"
    using nth [of "1 + (if i mod e = 0 then 1 else 0)"] by (simp add: block_kinds_def add.assoc)
  from 0 1 2 show ?thesis by blast
qed

lemma kind_ok_empty:
  assumes "kind_ok k r"
  shows "is_empty_row r \<longleftrightarrow> k = EmptyRow"
proof (cases k)
  case (DataRow i)
  with assms have "hd r = str_int (int i)" by simp
  moreover have "hd (replicate (length headers) ([]::string)) = []"
    by (simp add: length_headers)
  ultimately have "\<not> is_empty_row r"
    using str_int_nonempty [of "int i"] unfolding is_empty_row_def by metis
  with DataRow show ?thesis by simp
next
  case EmptyRow
  with assms show ?thesis by simp
next
  case GarbageRow
  with assms have "hd r \<in> set garbage_lines" by (simp add: is_garbage_row_def)
  then have "hd r \<noteq> []" by (rule garbage_text_nonempty)
  moreover have "hd (replicate (length headers) ([]::string)) = []"
    by (simp add: length_headers)
  ultimately have "\<not> is_empty_row r" unfolding is_empty_row_def by metis
  with GarbageRow show ?thesis by simp
qed

lemma kind_ok_garbage:
  assumes "kind_ok k r"
  shows "is_garbage_row r \<longleftrightarrow> k = GarbageRow"
proof (cases k)
  case (DataRow i)
  with assms have "hd r = str_int (int i)" by simp
  then have "hd (hd r) \<in> set ''0123456789''" using str_int_nat_digit [of i] by simp
  then have "hd r \<notin> set garbage_lines" using garbage_text_not_digit [of "hd r"] by blast
  then have "\<not> is_garbage_row r" by (simp add: is_garbage_row_def)
  with DataRow show ?thesis by simp
next
  case EmptyRow
  with assms have "r = replicate (length headers) []" by (simp add: is_empty_row_def)
  then have "hd r = []" by (simp add: length_headers)
  then have "hd r \<notin> set garbage_lines" using garbage_text_nonempty [of "hd r"] by blast
  then have "\<not> is_garbage_row r" by (simp add: is_garbage_row_def)
  with EmptyRow show ?thesis by simp
next
  case GarbageRow
  with assms show ?thesis by simp
qed

lemma filter_kinds:
  assumes "list_all2 kind_ok ks rs"
  shows "length (filter is_empty_row rs) = length (filter (\<lambda>k. k = EmptyRow) ks) \<and>
         length (filter is_garbage_row rs) = length (filter (\<lambda>k. k = GarbageRow) ks)"
  using assms
proof (induction rule: list_all2_induct)
  case Nil
  then show ?case by simp
next
  case (Cons k ks r rs)
  from kind_ok_empty [OF Cons.hyps(1)] kind_ok_garbage [OF Cons.hyps(1)] Cons.IH
  show ?case by simp
qed

lemma kind_ok_length:
  assumes "kind_ok k r"
  shows "length r = length headers"
proof (cases k)
  case (DataRow i)
  with assms show ?thesis by simp
next
  case EmptyRow
  with assms show ?thesis by (simp add: is_empty_row_def)
next
  case GarbageRow
  with assms have "r \<noteq> []" "tl r = replicate (length headers - 1) []"
    by (simp_all add: is_garbage_row_def)
  then have "length r = Suc (length headers - 1)"
    by (metis length_Cons length_replicate list.collapse)
  then show ?thesis by (simp add: length_headers)
qed

lemma main_rows_kinds:
  assumes "rng_ok R"
  shows "list_all2 kind_ok (expected_kinds e g [1..<Suc n]) (main_rows R N n e g st)"
  using write_rows_kinds [OF assms, of e g "[1..<Suc n]" N st]
  by (simp add: main_rows_def del: upt_Suc)

lemma main_rows_counts:
  assumes "rng_ok R"
  shows "length (main_rows R N n e g st) = n + n div e + n div g \<and>
         length (filter is_empty_row (main_rows R N n e g st)) = n div e \<and>
         length (filter is_garbage_row (main_rows R N n e g st)) = n div g \<and>
         (\<forall>r \<in> set (main_rows R N n e g st). length r = length headers)"
proof -
  note k = main_rows_kinds [OF assms, of e g n N st]
  have 1: "length (main_rows R N n e g st) = n + n div e + n div g"
    using list_all2_lengthD [OF k] length_expected_kinds [of e g n] by simp
  have 2: "length (filter is_empty_row (main_rows R N n e g st)) = n div e"
    "length (filter is_garbage_row (main_rows R N n e g st)) = n div g"
    using filter_kinds [OF k] count_expected_kinds [of e g n] by simp_all
  have 3: "\<forall>r \<in> set (main_rows R N n e g st). length r = length headers"
  proof
    fix r assume "r \<in> set (main_rows R N n e g st)"
    then obtain p where p: "p < length (main_rows R N n e g st)" "r = main_rows R N n e g st ! p"
      by (metis in_set_conv_nth)
    from list_all2_nthD2 [OF k p(1)] show "length r = length headers"
      unfolding p(2) by (rule kind_ok_length)
  qed
  from 1 2 3 show ?thesis by blast
qed

lemma main_rows_positions:
  assumes "rng_ok R" and "1 \<le> i" and "i \<le> n"
  shows "hd (main_rows R N n e g st ! row_pos e g i) = str_int (int i) \<and>
         (i mod e = 0 \<longrightarrow> is_empty_row (main_rows R N n e g st ! (row_pos e g i + 1))) \<and>
         (i mod g = 0 \<longrightarrow>
            is_garbage_row (main_rows R N n e g st ! (row_pos e g i + 1 + (if i mod e = 0 then 1 else 0))))"
proof -
  note k = main_rows_kinds [OF assms(1), of e g n N st]
  note p = expected_kinds_positions [OF assms(2,3), of e g]
  from p have p0: "row_pos e g i < length (expected_kinds e g [1..<Suc n])"
    "expected_kinds e g [1..<Suc n] ! row_pos e g i = DataRow i" by blast+
  from list_all2_nthD [OF k p0(1)] p0(2)
  have 0: "hd (main_rows R N n e g st ! row_pos e g i) = str_int (int i)" by simp
  have 1: "is_empty_row (main_rows R N n e g st ! (row_pos e g i + 1))" if "i mod e = 0"
  proof -
    from p that have q: "row_pos e g i + 1 < length (expected_kinds e g [1..<Suc n])"
      "expected_kinds e g [1..<Suc n] ! (row_pos e g i + 1) = EmptyRow" by blast+
    from list_all2_nthD [OF k q(1)] q(2) show ?thesis by simp
  qed
  have 2: "is_garbage_row (main_rows R N n e g st ! (row_pos e g i + 1 + (if i mod e = 0 then 1 else 0)))"
    if "i mod g = 0"
  proof -
    from p that have q:
      "row_pos e g i + 1 + (if i mod e = 0 then 1 else 0) < length (expected_kinds e g [1..<Suc n])"
      "expected_kinds e g [1..<Suc n] ! (row_pos e g i + 1 + (if i mod e = 0 then 1 else 0)) = GarbageRow"
      by blast+
    from list_all2_nthD [OF k q(1)] q(2) show ?thesis by simp
  qed
  from 0 1 2 show ?thesis by blast
qed

lemma str_10000: "str_int 10000 = ''10000''"
  by (simp add: str_int_def str_nat.simps digit_char_def)


text \<open>
  C5, as the code has it. With positive intervals \<open>e\<close> and \<open>g\<close> and \<open>n\<close> data rows,
  the rows written are \<open>n + n div e + n div g\<close>: exactly \<open>n div e\<close> of them are fully
  empty and exactly \<open>n div g\<close> are garbage rows. Data row \<open>i\<close> stands at index
  \<open>row_pos e g i\<close>; when \<open>i\<close> is a multiple of \<open>e\<close> the empty row is the next row;
  when \<open>i\<close> is a multiple of \<open>g\<close> the garbage row follows, right after the data row
  if \<open>i\<close> is no multiple of \<open>e\<close> and after that row's empty row if it is.
\<close>

theorem empty_and_garbage_rows:
  assumes "rng_ok R" and "0 < e" and "0 < g" and "out = main_rows R N n e g st"
  shows "length (filter is_empty_row out) = n div e \<and>
         length (filter is_garbage_row out) = n div g \<and>
         length out = n + n div e + n div g \<and>
         (\<forall>i. 1 \<le> i \<and> i \<le> n \<longrightarrow>
            hd (out ! row_pos e g i) = str_int (int i) \<and>
            (i mod e = 0 \<longrightarrow> is_empty_row (out ! (row_pos e g i + 1))) \<and>
            (i mod g = 0 \<longrightarrow>
               is_garbage_row (out ! (row_pos e g i + 1 + (if i mod e = 0 then 1 else 0)))))"
proof -
  from main_rows_counts [OF assms(1), of N n e g st]
  have c: "length (filter is_empty_row out) = n div e" "length (filter is_garbage_row out) = n div g"
    "length out = n + n div e + n div g"
    unfolding assms(4) by simp_all
  have p: "\<forall>i. 1 \<le> i \<and> i \<le> n \<longrightarrow>
            hd (out ! row_pos e g i) = str_int (int i) \<and>
            (i mod e = 0 \<longrightarrow> is_empty_row (out ! (row_pos e g i + 1))) \<and>
            (i mod g = 0 \<longrightarrow>
               is_garbage_row (out ! (row_pos e g i + 1 + (if i mod e = 0 then 1 else 0))))"
  proof (intro allI impI)
    fix i assume "1 \<le> i \<and> i \<le> n"
    then have i: "1 \<le> i" "i \<le> n" by simp_all
    show "hd (out ! row_pos e g i) = str_int (int i) \<and>
            (i mod e = 0 \<longrightarrow> is_empty_row (out ! (row_pos e g i + 1))) \<and>
            (i mod g = 0 \<longrightarrow>
               is_garbage_row (out ! (row_pos e g i + 1 + (if i mod e = 0 then 1 else 0))))"
      unfolding assms(4) by (rule main_rows_positions [OF assms(1) i])
  qed
  show ?thesis
    by (intro conjI c p)
qed

text \<open>
  The scenario of the specification: 20000 rows, an empty row every 5000 and a garbage
  row every 10000 give four empty rows (at indices 5000, 10001, 15003 and 20004) and two
  garbage rows (at indices 10002 and 20005) among 20006 rows.
\<close>

theorem empty_and_garbage_rows_witness:
  "rng_ok tape_rng \<and> (0::nat) < 5000 \<and> (0::nat) < 10000 \<and>
   length (filter is_empty_row (main_rows tape_rng np_tape 20000 5000 10000 ([], []))) = 4 \<and>
   length (filter is_garbage_row (main_rows tape_rng np_tape 20000 5000 10000 ([], []))) = 2 \<and>
   length (main_rows tape_rng np_tape 20000 5000 10000 ([], [])) = 20006 \<and>
   is_empty_row (main_rows tape_rng np_tape 20000 5000 10000 ([], []) ! 5000) \<and>
   is_empty_row (main_rows tape_rng np_tape 20000 5000 10000 ([], []) ! 10001) \<and>
   is_garbage_row (main_rows tape_rng np_tape 20000 5000 10000 ([], []) ! 10002) \<and>
   is_empty_row (main_rows tape_rng np_tape 20000 5000 10000 ([], []) ! 15003) \<and>
   is_empty_row (main_rows tape_rng np_tape 20000 5000 10000 ([], []) ! 20004) \<and>
   is_garbage_row (main_rows tape_rng np_tape 20000 5000 10000 ([], []) ! 20005)"
proof -
  define out where "out = main_rows tape_rng np_tape 20000 5000 10000 ([], [])"
  have e: "(0::nat) < 5000" and g: "(0::nat) < 10000" by simp_all
  note t = empty_and_garbage_rows [OF tape_rng_ok e g out_def]
  have d: "(20000::nat) div 5000 = 4" "(20000::nat) div 10000 = 2"
    "(20000::nat) + 20000 div 5000 + 20000 div 10000 = 20006" by simp_all
  have c1: "length (filter is_empty_row out) = 4"
    using t [THEN conjunct1] unfolding d .
  have c2: "length (filter is_garbage_row out) = 2"
    using t [THEN conjunct2, THEN conjunct1] unfolding d .
  have c3: "length out = 20006"
    using t [THEN conjunct2, THEN conjunct2, THEN conjunct1] unfolding d by simp
  note p = t [THEN conjunct2, THEN conjunct2, THEN conjunct2, rule_format]
  have r: "row_pos 5000 10000 5000 + 1 = 5000" "row_pos 5000 10000 10000 + 1 = 10001"
    "row_pos 5000 10000 15000 + 1 = 15003" "row_pos 5000 10000 20000 + 1 = 20004"
    by (simp_all add: row_pos_def)
  have m: "(5000::nat) mod 5000 = 0" "(10000::nat) mod 5000 = 0" "(15000::nat) mod 5000 = 0"
    "(20000::nat) mod 5000 = 0" "(10000::nat) mod 10000 = 0" "(20000::nat) mod 10000 = 0"
    by simp_all
  have 1: "is_empty_row (out ! 5000)"
    using p [of 5000, THEN conjunct2, THEN conjunct1, rule_format, OF _ m(1)] unfolding r by simp
  have 2: "is_empty_row (out ! 10001)"
    using p [of 10000, THEN conjunct2, THEN conjunct1, rule_format, OF _ m(2)] unfolding r by simp
  have 3: "is_garbage_row (out ! 10002)"
    using p [of 10000, THEN conjunct2, THEN conjunct2, rule_format, OF _ m(5)] unfolding r m by simp
  have 4: "is_empty_row (out ! 15003)"
    using p [of 15000, THEN conjunct2, THEN conjunct1, rule_format, OF _ m(3)] unfolding r by simp
  have 5: "is_empty_row (out ! 20004)"
    using p [of 20000, THEN conjunct2, THEN conjunct1, rule_format, OF _ m(4)] unfolding r by simp
  have 6: "is_garbage_row (out ! 20005)"
    using p [of 20000, THEN conjunct2, THEN conjunct2, rule_format, OF _ m(6)] unfolding r m by simp
  show ?thesis
    unfolding out_def [symmetric]
    by (intro conjI tape_rng_ok e g c1 c2 c3 1 2 3 4 5 6)
qed

text \<open>
  Where C5 fails as stated: in that scenario the row right after data row 10000 is the
  empty row; the garbage row comes one row later.
\<close>

theorem garbage_not_right_after_data_row:
  "hd (main_rows tape_rng np_tape 20000 5000 10000 ([], []) ! 10000) = ''10000'' \<and>
   is_empty_row (main_rows tape_rng np_tape 20000 5000 10000 ([], []) ! 10001) \<and>
   \<not> is_garbage_row (main_rows tape_rng np_tape 20000 5000 10000 ([], []) ! 10001) \<and>
   is_garbage_row (main_rows tape_rng np_tape 20000 5000 10000 ([], []) ! 10002)"
proof -
  define out where "out = main_rows tape_rng np_tape 20000 5000 10000 ([], [])"
  have i: "(1::nat) \<le> 10000" "(10000::nat) \<le> 20000" by simp_all
  from main_rows_positions [OF tape_rng_ok i, of np_tape 5000 10000 "([], [])"]
  have p: "hd (out ! 10000) = ''10000''" "is_empty_row (out ! 10001)" "is_garbage_row (out ! 10002)"
    by (simp_all add: row_pos_def out_def str_10000)
  have k: "list_all2 kind_ok (expected_kinds 5000 10000 [1..<Suc 20000]) out"
    unfolding out_def by (rule main_rows_kinds [OF tape_rng_ok])
  have "10001 < length out"
    using main_rows_counts [OF tape_rng_ok, of np_tape 20000 5000 10000 "([], [])"]
    by (simp add: out_def)
  from list_all2_nthD2 [OF k this] have "kind_ok (expected_kinds 5000 10000 [1..<Suc 20000] ! 10001) (out ! 10001)" .
  from kind_ok_empty [OF this] kind_ok_garbage [OF this] p(2)
  have "\<not> is_garbage_row (out ! 10001)" by simp
  with p show ?thesis unfolding out_def by blast
qed

text \<open>
  C7, as the code has it. Every garbage row the serializer writes is a full-width row:
  one of the five garbage texts followed by empty fields up to the header's 33 columns,
  as is every other row it writes; there are \<open>n div g\<close> garbage rows.
\<close>

theorem garbage_rows_full_width:
  assumes "rng_ok R" and "0 < e" and "0 < g" and "out = main_rows R N n e g st"
    and "1 \<le> i" and "i \<le> n" and "i mod g = 0"
  shows "(\<exists>t \<in> set garbage_lines.
            out ! (row_pos e g i + 1 + (if i mod e = 0 then 1 else 0)) =
              t # replicate (length headers - 1) []) \<and>
         length (out ! (row_pos e g i + 1 + (if i mod e = 0 then 1 else 0))) = length headers \<and>
         length headers = 33 \<and>
         (\<forall>r \<in> set out. length r = length headers) \<and>
         length (filter is_garbage_row out) = n div g"
proof -
  define r where "r = out ! (row_pos e g i + 1 + (if i mod e = 0 then 1 else 0))"
  from main_rows_positions [OF assms(1,5,6), of N e g st] assms(7)
  have gr: "is_garbage_row r" unfolding r_def assms(4) by blast
  then have "r \<noteq> []" "hd r \<in> set garbage_lines" "tl r = replicate (length headers - 1) []"
    by (simp_all add: is_garbage_row_def)
  then have 1: "\<exists>t \<in> set garbage_lines. r = t # replicate (length headers - 1) []"
    by (metis list.collapse)
  then have 2: "length r = length headers" by (auto simp: length_headers)
  from main_rows_counts [OF assms(1), of N n e g st]
  have 3: "\<forall>r \<in> set out. length r = length headers" "length (filter is_garbage_row out) = n div g"
    unfolding assms(4) by blast+
  from 1 2 3 length_headers show ?thesis unfolding r_def by blast
qed

text \<open>The theorem on the source's constants: 100000 rows, intervals 5000 and 10000.\<close>

theorem garbage_rows_full_width_witness:
  "rng_ok tape_rng \<and> (0::nat) < 5000 \<and> (0::nat) < 10000 \<and> (1::nat) \<le> 10000 \<and>
   (10000::nat) \<le> 100000 \<and> (10000::nat) mod 10000 = 0 \<and>
   (\<exists>t \<in> set garbage_lines.
      main_rows tape_rng np_tape 100000 5000 10000 ([], []) ! 10002 = t # replicate 32 []) \<and>
   length (filter is_garbage_row (main_rows tape_rng np_tape 100000 5000 10000 ([], []))) = 10"
proof -
  have h: "(0::nat) < 5000" "(0::nat) < 10000" "(1::nat) \<le> 10000" "(10000::nat) \<le> 100000"
    "(10000::nat) mod 10000 = 0" by simp_all
  from garbage_rows_full_width [OF tape_rng_ok h(1,2) refl h(3,4,5), of np_tape "([], [])"]
  have "\<exists>t \<in> set garbage_lines.
      main_rows tape_rng np_tape 100000 5000 10000 ([], []) ! 10002 = t # replicate 32 []"
    "length (filter is_garbage_row (main_rows tape_rng np_tape 100000 5000 10000 ([], []))) = 10"
    by (simp_all add: row_pos_def length_headers)
  with tape_rng_ok h show ?thesis by blast
qed

text \<open>
  Where C7 fails as stated: the first garbage row of the file (after data row 10000 and
  its empty row) has 33 fields, not one.
\<close>

theorem garbage_row_is_not_single_column:
  "is_garbage_row (main_rows tape_rng np_tape 100000 5000 10000 ([], []) ! 10002) \<and>
   length (main_rows tape_rng np_tape 100000 5000 10000 ([], []) ! 10002) = 33 \<and>
   length (main_rows tape_rng np_tape 100000 5000 10000 ([], []) ! 10002) \<noteq> 1"
proof -
  define r where "r = main_rows tape_rng np_tape 100000 5000 10000 ([], []) ! 10002"
  have i: "(1::nat) \<le> 10000" "(10000::nat) \<le> 100000" by simp_all
  have p: "row_pos 5000 10000 10000 + 1 + (if (10000::nat) mod 5000 = 0 then 1 else 0) = 10002"
    by (simp add: row_pos_def)
  have m: "(10000::nat) mod 10000 = 0" by simp
  from main_rows_positions [OF tape_rng_ok i, of np_tape 5000 10000 "([], [])",
      THEN conjunct2, THEN conjunct2, rule_format, OF m]
  have g: "is_garbage_row r" unfolding p r_def .
  then have "kind_ok GarbageRow r" by simp
  from kind_ok_length [OF this] have l: "length r = 33" by (simp add: length_headers)
  then have "length r \<noteq> 1" by simp
  with g l show ?thesis unfolding r_def by blast
qed

subsection \<open>The shuffle permutes\<close>

lemma shuffle_loop_mset:
  assumes "rng_ok R" and "\<forall>i \<in> set is. i < length x"
  shows "mset (fst (shuffle_loop R is x s)) = mset x"
  using assms(2)
proof (induction "is" arbitrary: x s)
  case Nil
  then show ?case by simp
next
  case (Cons i "is")
  define j where "j = fst (rng_randbelow R (i + 1) s)"
  have i: "i < length x" using Cons.prems by simp
  have "j < i + 1" using assms(1) by (simp add: j_def rng_ok_def)
  with i have j: "j < length x" by simp
  have sw: "mset (x[i := x ! j, j := x ! i]) = mset x"
    by (rule mset_swap [OF j i])
  have "\<forall>k \<in> set is. k < length (x[i := x ! j, j := x ! i])"
    using Cons.prems by simp
  from Cons.IH [OF this] sw show ?case
    by (simp add: split_beta j_def)
qed

lemma shuffle_mset:
  assumes "rng_ok R"
  shows "mset (fst (shuffle R x s)) = mset x"
  unfolding shuffle_def by (rule shuffle_loop_mset [OF assms]) simp

subsection \<open>Identifiers of a group\<close>

lemma generate_record_id [simp]:
  "record_id (fst (generate_record R now gid rid s)) = PInt rid"
  by (simp add: generate_record_def Let_def split_beta)

lemma generate_record_group [simp]:
  "group_id (fst (generate_record R now gid rid s)) = gid"
  by (simp add: generate_record_def Let_def split_beta)

lemma base_records_shape:
  "\<exists>new. fst (base_records R now gid k acc rid s) = acc @ new \<and>
         map record_id new = map (\<lambda>i. PInt (rid + int i)) [0..<k] \<and>
         (\<forall>b \<in> set new. group_id b = gid) \<and>
         fst (snd (base_records R now gid k acc rid s)) = rid + int k"
proof (induction k arbitrary: acc rid s)
  case 0
  then show ?case by simp
next
  case (Suc k)
  define r where "r = fst (generate_record R now gid rid s)"
  define s' where "s' = snd (generate_record R now gid rid s)"
  from Suc [of "acc @ [r]" "rid + 1" s'] obtain new where
    new: "fst (base_records R now gid k (acc @ [r]) (rid + 1) s') = (acc @ [r]) @ new"
      "map record_id new = map (\<lambda>i. PInt (rid + 1 + int i)) [0..<k]"
      "\<forall>b \<in> set new. group_id b = gid"
      "fst (snd (base_records R now gid k (acc @ [r]) (rid + 1) s')) = rid + 1 + int k"
    by blast
  have e: "base_records R now gid (Suc k) acc rid s = base_records R now gid k (acc @ [r]) (rid + 1) s'"
    by (simp add: split_beta r_def s'_def)
  have u: "[0..<Suc k] = 0 # map Suc [0..<k]"
    by (simp add: upt_conv_Cons map_Suc_upt del: upt_Suc)
  have m: "map record_id (r # new) = map (\<lambda>i. PInt (rid + int i)) [0..<Suc k]"
    unfolding u using new(2) by (simp add: r_def o_def add.assoc)
  have g: "\<forall>b \<in> set (r # new). group_id b = gid"
    using new(3) by (simp add: r_def)
  show ?case
    apply (rule exI [of _ "r # new"])
    unfolding e using new(1,4) m g by simp
qed

lemma generate_group_shape:
  assumes "rng_ok R"
  shows "\<exists>bases base n k.
           fst (generate_group R now g rid s) = bases @ create_duplicate_records base n \<and>
           1 \<le> k \<and> k \<le> 50 \<and> length bases = k \<and>
           map record_id bases = map (\<lambda>i. PInt (rid + int i)) [0..<k] \<and>
           (\<forall>b \<in> set bases. group_id b = ''GROUP_'' @ zpad 3 (int g)) \<and>
           n \<le> 5 \<and> (n = 0 \<or> 1 \<le> n \<and> base \<in> set bases) \<and>
           fst (snd (generate_group R now g rid s)) = rid + int k + int n"
proof -
  define gid where "gid = ''GROUP_'' @ zpad 3 (int g)"
  have gid': "CHR ''G'' # CHR ''R'' # CHR ''O'' # CHR ''U'' # CHR ''P'' # CHR ''_'' # zpad 3 (int g) = gid"
    by (simp add: gid_def)
  define gs where "gs = fst (randint R 1 50 s)"
  define s1 where "s1 = snd (randint R 1 50 s)"
  define k where "k = nat gs"
  have gsb: "1 \<le> gs \<and> gs \<le> 50"
    unfolding gs_def by (rule randint_bounds [OF assms]) simp
  define br where "br = base_records R now gid k [] rid s1"
  obtain bases where bases: "fst br = [] @ bases"
    "map record_id bases = map (\<lambda>i. PInt (rid + int i)) [0..<k]"
    "\<forall>b \<in> set bases. group_id b = gid" "fst (snd br) = rid + int k"
    unfolding br_def using base_records_shape [of R now gid k "[]" rid s1] by blast
  have len: "length bases = k"
    using arg_cong [OF bases(2), of length] by simp
  have kb: "1 \<le> k" "k \<le> 50" using gsb unfolding k_def by linarith+
  define s2 where "s2 = snd (snd br)"
  define u where "u = fst (rng_random R s2)"
  define s3 where "s3 = snd (rng_random R s2)"
  show ?thesis
  proof (cases "u < DUPLICATE_RATIO")
    case False
    have "generate_group R now g rid s = (bases, rid + int k, s3)"
      using False bases(1,4)
      by (simp add: generate_group_def Let_def split_beta gid' gs_def [symmetric]
          s1_def [symmetric] k_def [symmetric] br_def [symmetric] s2_def [symmetric]
          u_def [symmetric] s3_def [symmetric])
    then have "fst (generate_group R now g rid s) = bases @ create_duplicate_records (hd bases) 0"
      "fst (snd (generate_group R now g rid s)) = rid + int k + int 0"
      by (simp_all add: create_duplicate_records_def)
    with kb len bases(2,3) show ?thesis
      unfolding gid_def by blast
  next
    case True
    define base where "base = fst (choice R bases s3)"
    define s4 where "s4 = snd (choice R bases s3)"
    define nd where "nd = fst (randint R 1 5 s4)"
    have ndb: "1 \<le> nd \<and> nd \<le> 5"
      unfolding nd_def by (rule randint_bounds [OF assms]) simp
    have ne: "bases \<noteq> []" using len kb by auto
    have mem: "base \<in> set bases"
      unfolding base_def by (rule choice_mem [OF assms ne])
    have "generate_group R now g rid s =
        (bases @ create_duplicate_records base (nat nd), rid + int k + nd, snd (randint R 1 5 s4))"
      using True bases(1,4)
      by (simp add: generate_group_def Let_def split_beta gid' gs_def [symmetric]
          s1_def [symmetric] k_def [symmetric] br_def [symmetric] s2_def [symmetric]
          u_def [symmetric] s3_def [symmetric] base_def [symmetric] s4_def [symmetric]
          nd_def [symmetric])
    then have "fst (generate_group R now g rid s) = bases @ create_duplicate_records base (nat nd)"
      "fst (snd (generate_group R now g rid s)) = rid + int k + int (nat nd)"
      using ndb by simp_all
    moreover have "nat nd \<le> 5" "1 \<le> nat nd" using ndb by linarith+
    ultimately show ?thesis
      using kb len bases(2,3) mem unfolding gid_def by blast
  qed
qed

lemma ids_between_mono:
  assumes "lo' \<le> lo" and "hi \<le> hi'"
  shows "ids_between lo hi \<subseteq> ids_between lo' hi'"
proof
  fix x assume "x \<in> ids_between lo hi"
  then obtain i where i: "lo \<le> i" "i < hi"
    "x = str_int i \<or> (\<exists>j. x = str_int i @ ''_dup_'' @ str_int j)"
    unfolding ids_between_def by blast
  from i(1,2) assms have "lo' \<le> i" "i < hi'" by simp_all
  with i(3) show "x \<in> ids_between lo' hi'"
    unfolding ids_between_def by blast
qed

lemma int_id_not_dup: "str_int i \<noteq> str_int b @ ''_dup_'' @ str_int j"
proof
  assume "str_int i = str_int b @ ''_dup_'' @ str_int j"
  then have "CHR ''_'' \<in> set (str_int i)" by simp
  then show False using str_int_no_underscore by blast
qed

lemma dup_id_inj:
  assumes "str_int b @ ''_dup_'' @ str_int j = str_int b' @ ''_dup_'' @ str_int j'"
  shows "b = b' \<and> j = j'"
proof -
  from dup_suffix_inj [OF assms str_int_no_underscore str_int_no_underscore]
  have "str_int b = str_int b'" "str_int j = str_int j'" by simp_all
  then show ?thesis by (blast dest: str_int_inj)
qed

lemma id_owner_unique:
  assumes "x = str_int i \<or> (\<exists>j. x = str_int i @ ''_dup_'' @ str_int j)"
    and "x = str_int i' \<or> (\<exists>j. x = str_int i' @ ''_dup_'' @ str_int j)"
  shows "i = i'"
  using assms
  by (metis str_int_inj int_id_not_dup dup_id_inj)

lemma ids_between_disjoint:
  assumes "b \<le> c"
  shows "ids_between a b \<inter> ids_between c d = {}"
proof (rule ccontr)
  assume "ids_between a b \<inter> ids_between c d \<noteq> {}"
  then obtain x where x: "x \<in> ids_between a b" "x \<in> ids_between c d" by blast
  from x(1) obtain i where i: "a \<le> i" "i < b"
    "x = str_int i \<or> (\<exists>j. x = str_int i @ ''_dup_'' @ str_int j)"
    unfolding ids_between_def by blast
  from x(2) obtain i' where i': "c \<le> i'" "i' < d"
    "x = str_int i' \<or> (\<exists>j. x = str_int i' @ ''_dup_'' @ str_int j)"
    unfolding ids_between_def by blast
  from id_owner_unique [OF i(3) i'(3)] have "i = i'" .
  with i(2) i'(1) assms show False by simp
qed


lemma create_duplicate_records_length [simp]: "length (create_duplicate_records base n) = n"
  by (simp add: create_duplicate_records_def)

lemma create_duplicate_records_ids:
  "map (py_str \<circ> record_id) (create_duplicate_records base n) =
     map (\<lambda>i. py_str (record_id base) @ ''_dup_'' @ str_int (int i + 1)) [0..<n]"
  by (simp add: create_duplicate_records_def o_def)

lemma dup_ids_distinct:
  "distinct (map (\<lambda>i. a @ ''_dup_'' @ str_int (int i + 1)) [0..<n])"
proof -
  have "inj_on (\<lambda>i. a @ ''_dup_'' @ str_int (int i + 1)) (set [0..<n])"
  proof (rule inj_onI)
    fix x y assume "a @ ''_dup_'' @ str_int (int x + 1) = a @ ''_dup_'' @ str_int (int y + 1)"
    then have "str_int (int x + 1) = str_int (int y + 1)" by simp
    from str_int_inj [OF this] show "x = y" by simp
  qed
  then show ?thesis by (simp add: distinct_map)
qed

lemma base_ids_distinct:
  "distinct (map (\<lambda>i. str_int (rid + int i)) [0..<k])"
proof -
  have "inj_on (\<lambda>i. str_int (rid + int i)) (set [0..<k])"
  proof (rule inj_onI)
    fix x y assume "str_int (rid + int x) = str_int (rid + int y)"
    from str_int_inj [OF this] show "x = y" by simp
  qed
  then show ?thesis by (simp add: distinct_map)
qed

lemma group_ids:
  assumes "rng_ok R"
  shows "distinct (map (py_str \<circ> record_id) (fst (generate_group R now g rid s))) \<and>
         set (map (py_str \<circ> record_id) (fst (generate_group R now g rid s))) \<subseteq>
           ids_between rid (fst (snd (generate_group R now g rid s))) \<and>
         rid \<le> fst (snd (generate_group R now g rid s))"
proof -
  from generate_group_shape [OF assms, of now g rid s] obtain bases base n k where
    sh: "fst (generate_group R now g rid s) = bases @ create_duplicate_records base n"
      "length bases = k" "map record_id bases = map (\<lambda>i. PInt (rid + int i)) [0..<k]"
      "n = 0 \<or> 1 \<le> n \<and> base \<in> set bases"
      "fst (snd (generate_group R now g rid s)) = rid + int k + int n"
    by blast
  have bi: "map (py_str \<circ> record_id) bases = map (\<lambda>i. str_int (rid + int i)) [0..<k]"
    using arg_cong [OF sh(3), of "map py_str"] by (simp add: o_def)
  have bset: "x \<in> set (map (py_str \<circ> record_id) bases) \<Longrightarrow>
      \<exists>i. rid \<le> i \<and> i < rid + int k \<and> x = str_int i" for x
  proof -
    assume "x \<in> set (map (py_str \<circ> record_id) bases)"
    then obtain i where "i < k" "x = str_int (rid + int i)" unfolding bi by auto
    then show ?thesis by (intro exI [of _ "rid + int i"]) simp
  qed
  have dset: "x \<in> set (map (py_str \<circ> record_id) (create_duplicate_records base n)) \<Longrightarrow>
      \<exists>i j. rid \<le> i \<and> i < rid + int k \<and> x = str_int i @ ''_dup_'' @ str_int j" for x
  proof -
    assume x: "x \<in> set (map (py_str \<circ> record_id) (create_duplicate_records base n))"
    then have "n \<noteq> 0" by (auto simp: create_duplicate_records_def)
    with sh(4) have "base \<in> set bases" by simp
    then have "record_id base \<in> set (map record_id bases)" by simp
    then obtain i0 where i0: "i0 < k" "record_id base = PInt (rid + int i0)"
      unfolding sh(3) by auto
    from x obtain i where "x = str_int (rid + int i0) @ ''_dup_'' @ str_int (int i + 1)"
      unfolding create_duplicate_records_ids by (auto simp: i0(2))
    with i0(1) show ?thesis
      by (intro exI [of _ "rid + int i0"] exI [of _ "int i + 1"]) simp
  qed
  have disj: "set (map (py_str \<circ> record_id) bases) \<inter>
      set (map (py_str \<circ> record_id) (create_duplicate_records base n)) = {}"
  proof (rule ccontr)
    assume "\<not> ?thesis"
    then obtain x where x: "x \<in> set (map (py_str \<circ> record_id) bases)"
      "x \<in> set (map (py_str \<circ> record_id) (create_duplicate_records base n))" by blast
    from bset [OF x(1)] obtain i where "x = str_int i" by blast
    moreover from dset [OF x(2)] obtain b j where "x = str_int b @ ''_dup_'' @ str_int j" by blast
    ultimately show False using int_id_not_dup by blast
  qed
  have d1: "distinct (map (py_str \<circ> record_id) bases)"
    unfolding bi by (rule base_ids_distinct)
  have d2: "distinct (map (py_str \<circ> record_id) (create_duplicate_records base n))"
    unfolding create_duplicate_records_ids by (rule dup_ids_distinct)
  have dist: "distinct (map (py_str \<circ> record_id) (fst (generate_group R now g rid s)))"
    unfolding sh(1) map_append distinct_append using d1 d2 disj by blast
  have sub: "set (map (py_str \<circ> record_id) (fst (generate_group R now g rid s))) \<subseteq>
      ids_between rid (rid + int k)"
  proof
    fix x assume "x \<in> set (map (py_str \<circ> record_id) (fst (generate_group R now g rid s)))"
    then have "x \<in> set (map (py_str \<circ> record_id) bases) \<or>
        x \<in> set (map (py_str \<circ> record_id) (create_duplicate_records base n))"
      unfolding sh(1) map_append set_append by blast
    with bset [of x] dset [of x] show "x \<in> ids_between rid (rid + int k)"
      unfolding ids_between_def by blast
  qed
  have "ids_between rid (rid + int k) \<subseteq> ids_between rid (rid + int k + int n)"
    by (rule ids_between_mono) simp_all
  with sub have "set (map (py_str \<circ> record_id) (fst (generate_group R now g rid s))) \<subseteq>
      ids_between rid (fst (snd (generate_group R now g rid s)))"
    unfolding sh(5) by blast
  moreover have "rid \<le> fst (snd (generate_group R now g rid s))"
    unfolding sh(5) by simp
  ultimately show ?thesis using dist by blast
qed

lemma generate_groups_ids:
  assumes "rng_ok R"
    and "distinct (map (py_str \<circ> record_id) records)"
    and "set (map (py_str \<circ> record_id) records) \<subseteq> ids_between r0 rid"
    and "r0 \<le> rid"
  shows "distinct (map (py_str \<circ> record_id) (fst (generate_groups R now gs records rid s)))"
  using assms(2-4)
proof (induction gs arbitrary: records rid s)
  case Nil
  then show ?case by simp
next
  case (Cons g gs)
  define grp where "grp = fst (generate_group R now g rid s)"
  define rid' where "rid' = fst (snd (generate_group R now g rid s))"
  define s' where "s' = snd (snd (generate_group R now g rid s))"
  from group_ids [OF assms(1), of now g rid s]
  have gi: "distinct (map (py_str \<circ> record_id) grp)"
    "set (map (py_str \<circ> record_id) grp) \<subseteq> ids_between rid rid'" "rid \<le> rid'"
    unfolding grp_def rid'_def by blast+
  have e: "generate_groups R now (g # gs) records rid s = generate_groups R now gs (records @ grp) rid' s'"
    by (simp add: split_beta grp_def rid'_def s'_def)
  have dj: "ids_between r0 rid \<inter> ids_between rid rid' = {}"
    by (rule ids_between_disjoint) simp
  have 1: "distinct (map (py_str \<circ> record_id) (records @ grp))"
    unfolding map_append distinct_append using Cons.prems(1,2) gi(1,2) dj by blast
  have m1: "ids_between r0 rid \<subseteq> ids_between r0 rid'"
    by (rule ids_between_mono) (use gi(3) in simp_all)
  have m2: "ids_between rid rid' \<subseteq> ids_between r0 rid'"
    by (rule ids_between_mono) (use Cons.prems(3) in simp_all)
  have 2: "set (map (py_str \<circ> record_id) (records @ grp)) \<subseteq> ids_between r0 rid'"
    unfolding map_append set_append using Cons.prems(2) gi(2) m1 m2 by blast
  have 3: "r0 \<le> rid'" using Cons.prems(3) gi(3) by simp
  show ?case unfolding e by (rule Cons.IH [OF 1 2 3])
qed

lemma dataset_ids_distinct:
  assumes "rng_ok R"
  shows "distinct (map (py_str \<circ> record_id) (fst (generate_large_dataset_n n R now s)))"
proof -
  define pre where "pre = fst (generate_groups R now [0..<n] [] 1 s)"
  define s' where "s' = snd (snd (generate_groups R now [0..<n] [] 1 s))"
  have d: "distinct (map (py_str \<circ> record_id) pre)"
    unfolding pre_def by (rule generate_groups_ids [OF assms, of "[]" 1 1]) simp_all
  have e: "fst (generate_large_dataset_n n R now s) = fst (shuffle R pre s')"
    by (simp add: generate_large_dataset_n_def split_beta pre_def s'_def)
  have "mset (map (py_str \<circ> record_id) (fst (shuffle R pre s'))) = mset (map (py_str \<circ> record_id) pre)"
    using shuffle_mset [OF assms, of pre s'] by (metis mset_map)
  then show ?thesis
    unfolding e using d by (metis mset_eq_imp_distinct_iff)
qed

lemma date_2026_11_04: "strftime_ymd 739924 = ''2026-11-04''"
  by (simp add: strftime_ymd_def ord2ymd_def Let_def zpad_def str_nat.simps digit_char_def
      DAYS_BEFORE_MONTH_def DAYS_IN_MONTH_def)

lemma generate_record_empty_tape:
  "generate_record tape_rng now gid rid [] =
     (\<lparr>group_id = gid, name = ''John'', age = PNone, salary = PNone, is_active = True,
       created_date = strftime_ymd now, department = PNone, rating = PNone,
       record_id = PInt rid\<rparr>, [])"
  by (simp add: generate_record_def choice_def randint_def uniform_def tape_rng_def NAMES_def
      DEPARTMENTS_def Let_def)

lemma base_records_empty_tape:
  assumes "\<forall>r \<in> set acc. created_date r = strftime_ymd now"
  shows "(\<forall>r \<in> set (fst (base_records tape_rng now gid k acc rid [])). created_date r = strftime_ymd now) \<and>
         snd (snd (base_records tape_rng now gid k acc rid [])) = []"
  using assms
proof (induction k arbitrary: acc rid)
  case 0
  then show ?case by simp
next
  case (Suc k)
  define r where "r = fst (generate_record tape_rng now gid rid [])"
  have e: "base_records tape_rng now gid (Suc k) acc rid [] =
      base_records tape_rng now gid k (acc @ [r]) (rid + 1) []"
    by (simp add: generate_record_empty_tape r_def)
  have "created_date r = strftime_ymd now"
    by (simp add: generate_record_empty_tape r_def)
  with Suc.prems have "\<forall>x \<in> set (acc @ [r]). created_date x = strftime_ymd now" by simp
  from Suc.IH [OF this] show ?case unfolding e .
qed

lemma empty_tape_draws:
  "randint tape_rng a b [] = (a, [])" "choice tape_rng xs [] = (xs ! 0, [])"
  "rng_random tape_rng [] = (0, [])"
  by (simp_all add: randint_def choice_def tape_rng_def)

lemma generate_group_empty_tape:
  "(\<forall>r \<in> set (fst (generate_group tape_rng now g rid [])). created_date r = strftime_ymd now) \<and>
   fst (generate_group tape_rng now g rid []) \<noteq> [] \<and>
   snd (snd (generate_group tape_rng now g rid [])) = []"
proof -
  define gid where "gid = ''GROUP_'' @ zpad 3 (int g)"
  define b where "b = fst (generate_record tape_rng now gid rid [])"
  have "generate_group tape_rng now g rid [] =
      ([b] @ create_duplicate_records b (Suc 0), rid + 1 + 1, [])"
    by (simp add: generate_group_def Let_def empty_tape_draws
        generate_record_empty_tape b_def gid_def DUPLICATE_RATIO_def)
  moreover have "created_date b = strftime_ymd now"
    by (simp add: generate_record_empty_tape b_def)
  ultimately show ?thesis
    by (simp add: create_duplicate_records_def)
qed

lemma generate_groups_empty_tape:
  assumes "\<forall>r \<in> set records. created_date r = strftime_ymd now"
  shows "(\<forall>r \<in> set (fst (generate_groups tape_rng now gs records rid [])). created_date r = strftime_ymd now) \<and>
         (gs \<noteq> [] \<longrightarrow> fst (generate_groups tape_rng now gs records rid []) \<noteq> [])"
  using assms
proof (induction gs arbitrary: records rid)
  case Nil
  then show ?case by simp
next
  case (Cons g gs)
  define grp where "grp = fst (generate_group tape_rng now g rid [])"
  define rid' where "rid' = fst (snd (generate_group tape_rng now g rid []))"
  from generate_group_empty_tape [of now g rid]
  have gp: "\<forall>r \<in> set grp. created_date r = strftime_ymd now" "grp \<noteq> []"
    "snd (snd (generate_group tape_rng now g rid [])) = []"
    unfolding grp_def by blast+
  have e: "generate_groups tape_rng now (g # gs) records rid [] =
      generate_groups tape_rng now gs (records @ grp) rid' []"
    using gp(3) by (simp add: split_beta grp_def rid'_def)
  have p: "\<forall>r \<in> set (records @ grp). created_date r = strftime_ymd now"
    using Cons.prems gp(1) by auto
  from Cons.IH [OF p, of rid']
  have ih: "\<forall>r \<in> set (fst (generate_groups tape_rng now gs (records @ grp) rid' [])).
      created_date r = strftime_ymd now"
    "gs \<noteq> [] \<longrightarrow> fst (generate_groups tape_rng now gs (records @ grp) rid' []) \<noteq> []"
    by blast+
  have "fst (generate_groups tape_rng now gs (records @ grp) rid' []) \<noteq> []"
  proof (cases gs)
    case Nil
    then show ?thesis using gp(2) by simp
  next
    case (Cons a list)
    then show ?thesis using ih(2) by simp
  qed
  with ih(1) show ?case unfolding e by simp
qed

lemma dataset_empty_tape:
  assumes "0 < n"
  shows "(\<forall>r \<in> set (fst (generate_large_dataset_n n tape_rng now [])). created_date r = strftime_ymd now) \<and>
         fst (generate_large_dataset_n n tape_rng now []) \<noteq> []"
proof -
  define pre where "pre = fst (generate_groups tape_rng now [0..<n] [] 1 [])"
  define s' where "s' = snd (snd (generate_groups tape_rng now [0..<n] [] 1 []))"
  have ne: "[0..<n] \<noteq> []" using assms by simp
  from generate_groups_empty_tape [of "[]" now "[0..<n]" 1] ne
  have p: "\<forall>r \<in> set pre. created_date r = strftime_ymd now" "pre \<noteq> []"
    unfolding pre_def by simp_all
  have e: "fst (generate_large_dataset_n n tape_rng now []) = fst (shuffle tape_rng pre s')"
    by (simp add: generate_large_dataset_n_def split_beta pre_def s'_def)
  have m: "mset (fst (shuffle tape_rng pre s')) = mset pre"
    by (rule shuffle_mset [OF tape_rng_ok])
  then have "set (fst (shuffle tape_rng pre s')) = set pre" by (rule mset_eq_setD)
  moreover from m p(2) have "fst (shuffle tape_rng pre s') \<noteq> []" by auto
  ultimately show ?thesis unfolding e using p(1) by simp
qed




subsection \<open>Duplicate rows\<close>



subsection \<open>Identifiers are never reused\<close>

text \<open>
  C10. In the dataset that \<open>generate_large_dataset\<close> returns (for 500 groups as for
  any number of groups) the record identifiers are pairwise distinct, as Python values
  and as the strings written to the CSV file. In every group the base rows carry the
  consecutive integers from the counter's value on, and the counter leaves the group
  advanced by the number of base rows plus the number of duplicate copies.
\<close>

theorem record_ids_pairwise_distinct:
  assumes "rng_ok R"
  shows "distinct (map record_id (fst (generate_large_dataset R now s))) \<and>
         distinct (map (py_str \<circ> record_id) (fst (generate_large_dataset R now s))) \<and>
         distinct (map record_id (fst (generate_large_dataset_n n R now s))) \<and>
         distinct (map (py_str \<circ> record_id) (fst (generate_large_dataset_n n R now s))) \<and>
         (\<exists>bases base k.
            fst (generate_group R now g rid s') = bases @ create_duplicate_records base k \<and>
            map record_id bases = map (\<lambda>i. PInt (rid + int i)) [0..<length bases] \<and>
            fst (snd (generate_group R now g rid s')) = rid + int (length bases) + int k)"
proof -
  have d: "distinct (map (py_str \<circ> record_id) (fst (generate_large_dataset_n m R now s)))" for m
    by (rule dataset_ids_distinct [OF assms])
  have r: "distinct (map record_id (fst (generate_large_dataset_n m R now s)))" for m
    using d [of m] by (simp add: distinct_map flip: map_map)
  from generate_group_shape [OF assms, of now g rid s'] obtain bases base k where
    "fst (generate_group R now g rid s') = bases @ create_duplicate_records base k"
    "map record_id bases = map (\<lambda>i. PInt (rid + int i)) [0..<length bases]"
    "fst (snd (generate_group R now g rid s')) = rid + int (length bases) + int k"
    by blast
  then have "\<exists>bases base k.
            fst (generate_group R now g rid s') = bases @ create_duplicate_records base k \<and>
            map record_id bases = map (\<lambda>i. PInt (rid + int i)) [0..<length bases] \<and>
            fst (snd (generate_group R now g rid s')) = rid + int (length bases) + int k"
    by blast
  with d [of n] r [of n] d [of NUM_GROUPS] r [of NUM_GROUPS] show ?thesis
    unfolding generate_large_dataset_def by blast
qed

text \<open>The theorem at the tape generator.\<close>

theorem record_ids_pairwise_distinct_witness:
  "rng_ok tape_rng \<and>
   distinct (map record_id (fst (generate_large_dataset tape_rng 739923 [1, 7, 5, 0, 0, 0, 0, 0, 50]))) \<and>
   distinct (map (py_str \<circ> record_id) (fst (generate_large_dataset tape_rng 739923 [1, 7, 5, 0, 0, 0, 0, 0, 50])))"
  using record_ids_pairwise_distinct [OF tape_rng_ok, of 739923 "[1, 7, 5, 0, 0, 0, 0, 0, 50]"] tape_rng_ok
  by blast

subsection \<open>Reproducibility\<close>

text \<open>
  C1 fails on the code. \<open>generate_record\<close> dates every record back from
  \<open>datetime.now()\<close>, so the output depends on the day of the run as well as on the
  seed. Two complete runs of \<open>main\<close> from the same generator state (the empty tape),
  one on 2026-11-03 and one on 2026-11-04, return different record sequences.
\<close>

theorem rerun_on_another_day_differs:
  "main_dup tape_rng [] 739923 \<noteq> main_dup tape_rng [] 739924 \<and>
   fst (main_dup tape_rng [] 739923) \<noteq> fst (main_dup tape_rng [] 739924) \<and>
   strftime_ymd 739923 = ''2026-11-03'' \<and> strftime_ymd 739924 = ''2026-11-04''"
proof -
  have n: "0 < NUM_GROUPS" by (simp add: NUM_GROUPS_def)
  define A where "A = fst (generate_large_dataset tape_rng 739923 [])"
  define B where "B = fst (generate_large_dataset tape_rng 739924 [])"
  from dataset_empty_tape [OF n, of 739923]
  have a: "\<forall>r \<in> set A. created_date r = ''2026-11-03''" "A \<noteq> []"
    unfolding A_def generate_large_dataset_def date_2026_11_03 by blast+
  from dataset_empty_tape [OF n, of 739924]
  have b: "\<forall>r \<in> set B. created_date r = ''2026-11-04''" "B \<noteq> []"
    unfolding B_def generate_large_dataset_def date_2026_11_04 by blast+
  have "A \<noteq> B"
  proof
    assume "A = B"
    with a b have "created_date (hd A) = ''2026-11-03''" "created_date (hd A) = ''2026-11-04''"
      by simp_all
    then show False by simp
  qed
  then have "fst (main_dup tape_rng [] 739923) \<noteq> fst (main_dup tape_rng [] 739924)"
    by (simp add: main_dup_def Let_def A_def B_def)
  then show ?thesis
    using date_2026_11_03 date_2026_11_04 by auto
qed

end
